theory Spec2Isabelle
  imports Main "HOL-Library.Sublist"
begin

text \<open>
  The track and task registry of \<open>conductor/manus_conductor.py\<close> (class
  \<open>ManusCondor\<close>): the registry document \<open>tracks.md\<close>, the allocation of track ids,
  the creation of tracks, the status updates and the parsing of plans.  Every function
  keeps the name it has in the source.  A function that can raise returns a sum, the
  error on the left; a function that writes files takes the store and returns the new
  one.  The regular expressions of the source are transcribed into patterns of a small
  matcher that backtracks as \<open>re\<close> does.
\<close>

section \<open>Text: characters, stripping, splitting\<close>

text \<open>
  Python strings are modelled as \<open>string\<close>; a \<open>char\<close> stands for a code point
  below 256.  \<open>is_space\<close> is the predicate behind both \<open>str.strip()\<close> and the
  regular-expression class \<open>\s\<close> of a \<open>str\<close> pattern: the code points 9-13, 28-32,
  133 and 160.  \<open>is_digit\<close> is the class \<open>\d\<close> below 256.
\<close>

definition is_space :: "char \<Rightarrow> bool" where
  "is_space c = (let n = (of_char c :: nat)
                 in (9 \<le> n \<and> n \<le> 13) \<or> (28 \<le> n \<and> n \<le> 32) \<or> n = 133 \<or> n = 160)"

definition is_digit :: "char \<Rightarrow> bool" where
  "is_digit c = (let n = (of_char c :: nat) in 48 \<le> n \<and> n \<le> 57)"

definition strip :: "string \<Rightarrow> string" where
  "strip s = rev (dropWhile is_space (rev (dropWhile is_space s)))"

text \<open>\<open>str.split(sep)\<close> for a separator: cut at every occurrence, scanning from the
  left, occurrences not overlapping.  (Python raises on an empty separator; both
  calls in the source pass a literal, non-empty one.)\<close>

function split_acc :: "string \<Rightarrow> string \<Rightarrow> string \<Rightarrow> string list" where
  "split_acc sep cur s =
     (if s = [] then [cur]
      else if sep \<noteq> [] \<and> prefix sep s then cur # split_acc sep [] (drop (length sep) s)
      else split_acc sep (cur @ [hd s]) (tl s))"
  by pat_completeness auto
termination
  by (relation "measure (\<lambda>(sep, cur, s). length s)") auto

declare split_acc.simps [simp del]

definition py_split :: "string \<Rightarrow> string \<Rightarrow> string list" where
  "py_split sep s = split_acc sep [] s"

section \<open>The fragment of regular expressions the source uses\<close>

datatype cls = Space | Digit | Dot | NoneOf string | OneOf string

fun cls_mem :: "cls \<Rightarrow> char \<Rightarrow> bool" where
  "cls_mem Space c = is_space c"
| "cls_mem Digit c = is_digit c"
| "cls_mem Dot c = (c \<noteq> CHR 0x0A)"
| "cls_mem (NoneOf cs) c = (c \<notin> set cs)"
| "cls_mem (OneOf cs) c = (c \<in> set cs)"

text \<open>A pattern is a sequence of items: a literal character, one character of a
  class, a greedy starred class, or a group boundary.  \<open>X+\<close> is \<open>X X*\<close> and
  \<open>X{n}\<close> is \<open>n\<close> copies of \<open>X\<close>.\<close>

datatype rx_item = Lit char | One cls | Star cls | Mark

type_synonym pattern = "rx_item list"

definition lits :: "string \<Rightarrow> pattern" where
  "lits s = map Lit s"

definition rx_plus :: "cls \<Rightarrow> pattern" where
  "rx_plus k = [One k, Star k]"

definition rx_times :: "nat \<Rightarrow> cls \<Rightarrow> pattern" where
  "rx_times n k = replicate n (One k)"

text \<open>Matching at the head of a string, by backtracking as \<open>re\<close> does: a star first
  tries to take one more character and gives it back when the rest of the pattern
  fails.  The result is the list of positions (as remaining suffixes) of the group
  boundaries passed, and the suffix left after the match.\<close>

fun rmatch :: "pattern \<Rightarrow> string \<Rightarrow> (string list \<times> string) option" where
  "rmatch [] s = Some ([], s)"
| "rmatch (Lit c # p) [] = None"
| "rmatch (Lit c # p) (x # xs) = (if x = c then rmatch p xs else None)"
| "rmatch (One k # p) [] = None"
| "rmatch (One k # p) (x # xs) = (if cls_mem k x then rmatch p xs else None)"
| "rmatch (Star k # p) [] = rmatch p []"
| "rmatch (Star k # p) (x # xs) =
     (if cls_mem k x
      then (case rmatch (Star k # p) xs of Some r \<Rightarrow> Some r | None \<Rightarrow> rmatch p (x # xs))
      else rmatch p (x # xs))"
| "rmatch (Mark # p) s =
     (case rmatch p s of None \<Rightarrow> None | Some (ms, r) \<Rightarrow> Some (s # ms, r))"

text \<open>The text between two positions, each given as the suffix that starts there.\<close>

definition between :: "string \<Rightarrow> string \<Rightarrow> string" where
  "between a b = take (length a - length b) a"

text \<open>\<open>re.search\<close>: the leftmost start at which the pattern matches.  The result
  keeps the text before the match.\<close>

fun rsearch :: "pattern \<Rightarrow> string \<Rightarrow> (string \<times> string list \<times> string) option" where
  "rsearch p [] = (case rmatch p [] of None \<Rightarrow> None | Some r \<Rightarrow> Some ([], r))"
| "rsearch p (x # xs) =
     (case rmatch p (x # xs) of
        Some r \<Rightarrow> Some ([], r)
      | None \<Rightarrow> (case rsearch p xs of None \<Rightarrow> None
                 | Some (pre, r) \<Rightarrow> Some (x # pre, r)))"

section \<open>Substitution\<close>

datatype py_error = FileNotFoundError | FileExistsError | TemplateError

text \<open>The replacement argument of \<open>re.sub\<close> is a template.  It is parsed once,
  before any match is looked for, into literal characters and references to the whole
  match.  The patterns substituted for in the source have no capture group, so
  \<open>\g<0>\<close> (any run of ASCII digits with value 0) is the only group reference that
  does not raise; \<open>TemplateError\<close> stands for the exception (\<open>re.error\<close> or
  \<open>IndexError\<close>) that every other malformed template raises.  The escapes are those
  of CPython 3.12.\<close>

datatype piece = Text char | Whole

definition is_octdigit :: "char \<Rightarrow> bool" where
  "is_octdigit c = (let n = (of_char c :: nat) in 48 \<le> n \<and> n \<le> 55)"

definition is_ascii_letter :: "char \<Rightarrow> bool" where
  "is_ascii_letter c = (let n = (of_char c :: nat)
                        in (65 \<le> n \<and> n \<le> 90) \<or> (97 \<le> n \<and> n \<le> 122))"

definition digit_val :: "char \<Rightarrow> nat" where
  "digit_val c = of_char c - 48"

definition escape_char :: "char \<Rightarrow> char option" where
  "escape_char c =
     (if c = CHR ''a'' then Some (CHR 0x07)
      else if c = CHR ''b'' then Some (CHR 0x08)
      else if c = CHR ''f'' then Some (CHR 0x0C)
      else if c = CHR ''n'' then Some (CHR 0x0A)
      else if c = CHR ''r'' then Some (CHR 0x0D)
      else if c = CHR ''t'' then Some (CHR 0x09)
      else if c = CHR ''v'' then Some (CHR 0x0B)
      else if c = CHR 0x5C then Some (CHR 0x5C)
      else None)"

definition cons_piece :: "piece \<Rightarrow> py_error + piece list \<Rightarrow> py_error + piece list" where
  "cons_piece x r = (case r of Inl e \<Rightarrow> Inl e | Inr ps \<Rightarrow> Inr (x # ps))"

function parse_template :: "string \<Rightarrow> py_error + piece list" where
  "parse_template [] = Inr []"
| "parse_template (c # t) =
     (if c \<noteq> CHR 0x5C then cons_piece (Text c) (parse_template t)
      else case t of
        [] \<Rightarrow> Inl TemplateError
      | e # u \<Rightarrow>
          if e = CHR ''g'' then
            (case u of
               [] \<Rightarrow> Inl TemplateError
             | b # v \<Rightarrow>
                 let name = takeWhile (\<lambda>x. x \<noteq> CHR ''>'') v;
                     rest = dropWhile (\<lambda>x. x \<noteq> CHR ''>'') v
                 in if b \<noteq> CHR ''<'' \<or> rest = [] \<or> name = [] \<or> \<not> list_all is_digit name
                       \<or> \<not> list_all (\<lambda>x. x = CHR ''0'') name
                    then Inl TemplateError
                    else cons_piece Whole (parse_template (tl rest)))
          else if e = CHR ''0'' then
            (let ds = takeWhile is_octdigit (take 2 u)
             in cons_piece
                  (Text (char_of (foldl (\<lambda>n d. 8 * n + digit_val d) 0 ds mod 256)))
                  (parse_template (drop (length ds) u)))
          else if is_digit e then
            (case u of
               d2 # d3 # w \<Rightarrow>
                 if is_octdigit e \<and> is_octdigit d2 \<and> is_octdigit d3
                    \<and> 64 * digit_val e + 8 * digit_val d2 + digit_val d3 \<le> 255
                 then cons_piece
                        (Text (char_of (64 * digit_val e + 8 * digit_val d2 + digit_val d3)))
                        (parse_template w)
                 else Inl TemplateError
             | _ \<Rightarrow> Inl TemplateError)
          else
            (case escape_char e of
               Some x \<Rightarrow> cons_piece (Text x) (parse_template u)
             | None \<Rightarrow>
                 if is_ascii_letter e then Inl TemplateError
                 else cons_piece (Text (CHR 0x5C)) (cons_piece (Text e) (parse_template u))))"
  by pat_completeness auto
termination
proof (relation "measure length", goal_cases)
  case 1
  show ?case by simp
next
  case (2 c t)
  then show ?case by simp
next
  case (3 c t e u b v name rest)
  have "length (dropWhile (\<lambda>x. x \<noteq> CHR ''>'') v) \<le> length v"
    by (rule length_dropWhile_le)
  with 3 show ?case by (cases rest) auto
next
  case (4 c t e u ds)
  then show ?case by simp
next
  case (5 c t e u d2 u' d3 w)
  then show ?case by simp
next
  case 6
  then show ?case by simp
next
  case 7
  then show ?case by simp
qed

fun fill :: "piece list \<Rightarrow> string \<Rightarrow> string" where
  "fill [] m = []"
| "fill (Text c # ps) m = c # fill ps m"
| "fill (Whole # ps) m = m @ fill ps m"

text \<open>\<open>re.sub\<close> with a parsed template: every match found scanning from the left is
  replaced, and the scan goes on after the match.  After an empty match the next
  character is copied (the rule of Python 3.7 and later); the patterns of the source
  never match the empty string.\<close>

function sub_all :: "pattern \<Rightarrow> piece list \<Rightarrow> string \<Rightarrow> string" where
  "sub_all p r s =
     (case rmatch p s of
        Some (ms, rest) \<Rightarrow>
          if length rest < length s then fill r (between s rest) @ sub_all p r rest
          else fill r [] @ (case s of [] \<Rightarrow> [] | x # xs \<Rightarrow> x # sub_all p r xs)
      | None \<Rightarrow> (case s of [] \<Rightarrow> [] | x # xs \<Rightarrow> x # sub_all p r xs))"
  by pat_completeness auto
termination
  by (relation "measure (\<lambda>(p, r, s). length s)") auto

declare sub_all.simps [simp del]

definition py_sub :: "pattern \<Rightarrow> string \<Rightarrow> string \<Rightarrow> py_error + string" where
  "py_sub p repl s =
     (case parse_template repl of Inl e \<Rightarrow> Inl e | Inr r \<Rightarrow> Inr (sub_all p r s))"

text \<open>\<open>re.escape(d)\<close> inside a pattern matches the text \<open>d\<close> literally.\<close>

definition re_escape :: "string \<Rightarrow> pattern" where
  "re_escape d = lits d"

section \<open>Numbers in decimal\<close>

text \<open>\<open>int(digits)\<close> and the format \<open>{n:03d}\<close>.\<close>

definition py_int :: "string \<Rightarrow> nat" where
  "py_int ds = foldl (\<lambda>n d. 10 * n + digit_val d) 0 ds"

function decimal :: "nat \<Rightarrow> string" where
  "decimal n = (if n < 10 then [char_of (48 + n)]
                else decimal (n div 10) @ [char_of (48 + n mod 10)])"
  by pat_completeness auto
termination
  by (relation "measure id") auto

declare decimal.simps [simp del]

definition format_03d :: "nat \<Rightarrow> string" where
  "format_03d n = replicate (3 - length (decimal n)) (CHR ''0'') @ decimal n"

section \<open>The project store\<close>

text \<open>
  The files the registry reads and writes, inside an existing \<open>conductor\<close>
  directory: the registry document \<open>conductor/tracks.md\<close> and the listing of
  \<open>conductor/tracks\<close>, each absent (\<open>None\<close>) or present.  An entry of the listing
  is a plain file or a track directory with its three files.  A track id is the name
  of an entry.  The metadata record stands for the JSON text written from it.
\<close>

record metadata =
  m_id :: string
  m_description :: string
  m_created_at :: string
  m_status :: string

record track_files =
  metadata_json :: "metadata option"
  spec_md :: "string option"
  plan_md :: "string option"

datatype dir_entry = PlainFile | Directory track_files

record store =
  tracks_file :: "string option"
  tracks_dir :: "(string \<times> dir_entry) list option"

text \<open>
  The store holds the characters of each file as they are on disk.  The source reads
  every file with \<open>Path.read_text()\<close>, which opens it in text mode with universal
  newlines: a carriage return followed by a line feed, and a carriage return alone,
  are read as one line feed.  It writes with \<open>Path.write_text()\<close>, which on a POSIX
  system writes the line feed as it is; so writing is storing.
\<close>

fun read_text :: "string \<Rightarrow> string" where
  "read_text [] = []"
| "read_text [c] = [if c = CHR 0x0D then CHR 0x0A else c]"
| "read_text (c # d # s) =
     (if c = CHR 0x0D
      then (if d = CHR 0x0A then CHR 0x0A # read_text s else CHR 0x0A # read_text (d # s))
      else c # read_text (d # s))"

definition is_dir :: "dir_entry \<Rightarrow> bool" where
  "is_dir e = (case e of PlainFile \<Rightarrow> False | Directory f \<Rightarrow> True)"

definition registry_header :: string where
  "registry_header = ''# Tracks'' @ [CHR 0x0A, CHR 0x0A]
     @ ''This file contains all tracks for the project.'' @ [CHR 0x0A]"

definition fresh_store :: store where
  "fresh_store = \<lparr>tracks_file = None, tracks_dir = None\<rparr>"

text \<open>\<open>init_conductor_structure\<close>, as far as the registry goes: the tracks directory
  and the registry document are created unless they exist.\<close>

definition init_conductor_structure :: "store \<Rightarrow> store" where
  "init_conductor_structure st =
     \<lparr>tracks_file = (case tracks_file st of
                       None \<Rightarrow> Some (registry_header @ [CHR 0x0A])
                     | Some c \<Rightarrow> Some c),
      tracks_dir = (case tracks_dir st of None \<Rightarrow> Some [] | Some es \<Rightarrow> Some es)\<rparr>"

section \<open>Track ids\<close>

text \<open>\<open>track-(\d+)\<close>\<close>

definition track_id_rx :: pattern where
  "track_id_rx = lits ''track-'' @ [Mark] @ rx_plus Digit @ [Mark]"

definition rx_group :: "nat \<Rightarrow> string list \<Rightarrow> string" where
  "rx_group n ms = between (ms ! (2 * n - 2)) (ms ! (2 * n - 1))"

definition track_number :: "string \<Rightarrow> nat option" where
  "track_number name =
     (case rsearch track_id_rx name of
        None \<Rightarrow> None
      | Some (pre, ms, rest) \<Rightarrow> Some (py_int (rx_group 1 ms)))"

definition get_next_track_id :: "store \<Rightarrow> string" where
  "get_next_track_id st =
     (case tracks_dir st of
        None \<Rightarrow> ''track-001''
      | Some es \<Rightarrow>
          let existing_tracks = map fst (filter (\<lambda>(name, e). is_dir e) es)
          in if existing_tracks = [] then ''track-001''
             else let numbers = List.map_filter track_number existing_tracks
                  in if numbers \<noteq> [] then ''track-'' @ format_03d (Max (set numbers) + 1)
                     else ''track-001'')"

section \<open>The registry document\<close>

record track =
  t_id :: string
  t_description :: string
  t_status :: string
  t_folder :: string

text \<open>\<open>##\s*\[([ ~x])\]\s*Track:\s*(.+)\<close> and \<open>\[conductor/tracks/([^\]]+)\]\<close>\<close>

definition heading_rx :: pattern where
  "heading_rx = lits ''##'' @ [Star Space] @ lits ''['' @ [Mark, One (OneOf '' ~x''), Mark]
     @ lits '']'' @ [Star Space] @ lits ''Track:'' @ [Star Space] @ [Mark] @ rx_plus Dot @ [Mark]"

definition folder_rx :: pattern where
  "folder_rx = lits ''[conductor/tracks/'' @ [Mark] @ rx_plus (NoneOf '']'') @ [Mark] @ lits '']''"

text \<open>\<open>{' ': 'pending', '~': 'in_progress', 'x': 'completed'}.get(c, 'pending')\<close>\<close>

definition status_of_char :: "string \<Rightarrow> string" where
  "status_of_char c =
     (if c = '' '' then ''pending''
      else if c = ''~'' then ''in_progress''
      else if c = ''x'' then ''completed''
      else ''pending'')"

text \<open>\<open>{'pending': ' ', 'in_progress': '~', 'completed': 'x'}.get(s, ' ')\<close>\<close>

definition char_of_status :: "string \<Rightarrow> char" where
  "char_of_status s =
     (if s = ''pending'' then CHR '' ''
      else if s = ''in_progress'' then CHR ''~''
      else if s = ''completed'' then CHR ''x''
      else CHR '' '')"

text \<open>The body of the loop of \<open>parse_tracks\<close>: the record a section contributes, if
  any.\<close>

definition parse_section :: "string \<Rightarrow> track option" where
  "parse_section section =
     (case rsearch heading_rx section of
        None \<Rightarrow> None
      | Some (pre, ms, rest) \<Rightarrow>
          let status_char = rx_group 1 ms;
              description = strip (rx_group 2 ms);
              status = status_of_char status_char
          in (case rsearch folder_rx section of
                None \<Rightarrow> None
              | Some (fpre, fms, frest) \<Rightarrow>
                  let track_id = rx_group 1 fms
                  in if track_id \<noteq> []
                     then Some \<lparr>t_id = track_id, t_description = description,
                                t_status = status,
                                t_folder = ''conductor/tracks/'' @ track_id\<rparr>
                     else None))"

fun parse_sections :: "string list \<Rightarrow> track list" where
  "parse_sections [] = []"
| "parse_sections (section # sections) =
     (case parse_section section of
        None \<Rightarrow> parse_sections sections
      | Some t \<Rightarrow> t # parse_sections sections)"

definition parse_text :: "string \<Rightarrow> track list" where
  "parse_text content = parse_sections (tl (py_split ''---'' content))"

definition parse_tracks :: "store \<Rightarrow> track list" where
  "parse_tracks st =
     (case tracks_file st of None \<Rightarrow> [] | Some raw \<Rightarrow> parse_text (read_text raw))"

definition get_track_by_id :: "store \<Rightarrow> string \<Rightarrow> track option" where
  "get_track_by_id st track_id = find (\<lambda>t. t_id t = track_id) (parse_tracks st)"

definition get_next_pending_track :: "store \<Rightarrow> track option" where
  "get_next_pending_track st = find (\<lambda>t. t_status t \<noteq> ''completed'') (parse_tracks st)"

definition track_entry :: "string \<Rightarrow> string \<Rightarrow> string" where
  "track_entry track_id description =
     [CHR 0x0A] @ ''---'' @ [CHR 0x0A, CHR 0x0A] @ ''## [ ] Track: '' @ description
     @ [CHR 0x0A, CHR 0x0A] @ ''**Folder:** [conductor/tracks/'' @ track_id
     @ ''](conductor/tracks/'' @ track_id @ '')'' @ [CHR 0x0A, CHR 0x0A]"

definition add_track_to_registry :: "string \<Rightarrow> string \<Rightarrow> store \<Rightarrow> store" where
  "add_track_to_registry track_id description st =
     (case tracks_file st of
        Some raw \<Rightarrow>
          let content = read_text raw
          in st\<lparr>tracks_file := Some (content @ track_entry track_id description)\<rparr>
      | None \<Rightarrow>
          st\<lparr>tracks_file := Some (registry_header @ track_entry track_id description)\<rparr>)"

text \<open>\<open>##\s*\[[ ~x]\]\s*Track:\s*\<close>, to which the escaped description is appended.\<close>

definition heading_prefix_rx :: pattern where
  "heading_prefix_rx = lits ''##'' @ [Star Space] @ lits ''['' @ [One (OneOf '' ~x'')]
     @ lits '']'' @ [Star Space] @ lits ''Track:'' @ [Star Space]"

definition old_pattern :: "string \<Rightarrow> pattern" where
  "old_pattern description = heading_prefix_rx @ re_escape description"

definition new_heading :: "char \<Rightarrow> string \<Rightarrow> string" where
  "new_heading status_char description = ''## ['' @ [status_char] @ ''] Track: '' @ description"

definition update_track_status :: "string \<Rightarrow> string \<Rightarrow> store \<Rightarrow> py_error + store" where
  "update_track_status track_id new_status st =
     (let status_char = char_of_status new_status
      in case tracks_file st of
           None \<Rightarrow> Inl FileNotFoundError
         | Some raw \<Rightarrow>
             (case get_track_by_id st track_id of
                None \<Rightarrow> Inr st
              | Some track \<Rightarrow>
                  let content = read_text raw;
                      description = t_description track
                  in (case py_sub (old_pattern description)
                             (new_heading status_char description) content of
                        Inl e \<Rightarrow> Inl e
                      | Inr content' \<Rightarrow> Inr (st\<lparr>tracks_file := Some content'\<rparr>))))"

section \<open>Creating tracks\<close>

definition empty_files :: track_files where
  "empty_files = \<lparr>metadata_json = None, spec_md = None, plan_md = None\<rparr>"

fun put_entry :: "string \<Rightarrow> dir_entry \<Rightarrow> (string \<times> dir_entry) list \<Rightarrow> (string \<times> dir_entry) list" where
  "put_entry name e [] = [(name, e)]"
| "put_entry name e ((n, x) # es) =
     (if n = name then (n, e) # es else (n, x) # put_entry name e es)"

text \<open>\<open>create_track\<close>.  \<open>mkdir(exist_ok=True)\<close> raises when the tracks directory is
  missing, and when the name is taken by a plain file.  The time stamp is a
  parameter.\<close>

definition create_track ::
    "string \<Rightarrow> string \<Rightarrow> string \<Rightarrow> string \<Rightarrow> store \<Rightarrow> py_error + (string \<times> store)" where
  "create_track description spec_content plan_content now st =
     (let track_id = get_next_track_id st
      in case tracks_dir st of
           None \<Rightarrow> Inl FileNotFoundError
         | Some es \<Rightarrow>
             (case map_of es track_id of
                Some PlainFile \<Rightarrow> Inl FileExistsError
              | other \<Rightarrow>
                  let files = (case other of Some (Directory f) \<Rightarrow> f | _ \<Rightarrow> empty_files);
                      metadata = \<lparr>m_id = track_id, m_description = description,
                                  m_created_at = now, m_status = ''pending''\<rparr>;
                      files' = files\<lparr>metadata_json := Some metadata,
                                     spec_md := Some spec_content,
                                     plan_md := Some plan_content\<rparr>;
                      st' = st\<lparr>tracks_dir := Some (put_entry track_id (Directory files') es)\<rparr>
                  in Inr (track_id, add_track_to_registry track_id description st')))"

text \<open>A sequence of calls of \<open>create_track\<close>, each with its description, its two
  texts and its time stamp; the ids returned are collected.\<close>

fun create_tracks ::
    "(string \<times> string \<times> string \<times> string) list \<Rightarrow> store \<Rightarrow> py_error + (string list \<times> store)" where
  "create_tracks [] st = Inr ([], st)"
| "create_tracks ((description, spec_content, plan_content, now) # calls) st =
     (case create_track description spec_content plan_content now st of
        Inl e \<Rightarrow> Inl e
      | Inr (track_id, st') \<Rightarrow>
          (case create_tracks calls st' of
             Inl e \<Rightarrow> Inl e
           | Inr (ids, st'') \<Rightarrow> Inr (track_id # ids, st'')))"

section \<open>Plans\<close>

record subtask =
  s_subtask :: string
  s_status :: string

record task =
  k_phase :: "string option"
  k_task :: string
  k_status :: string
  k_subtasks :: "subtask list"

text \<open>\<open>^-\s*\[([ ~x])\]\s*Task:\s*(.+)\<close> and \<open>^\s{4}-\s*\[([ ~x])\]\s*(.+)\<close>, both
  used with \<open>re.match\<close>, which matches at the start of the line.\<close>

definition task_rx :: pattern where
  "task_rx = lits ''-'' @ [Star Space] @ lits ''['' @ [Mark, One (OneOf '' ~x''), Mark]
     @ lits '']'' @ [Star Space] @ lits ''Task:'' @ [Star Space] @ [Mark] @ rx_plus Dot @ [Mark]"

definition subtask_rx :: pattern where
  "subtask_rx = rx_times 4 Space @ lits ''-'' @ [Star Space] @ lits ''[''
     @ [Mark, One (OneOf '' ~x''), Mark] @ lits '']'' @ [Star Space] @ [Mark] @ rx_plus Dot
     @ [Mark]"

definition plan_file :: "store \<Rightarrow> string \<Rightarrow> string option" where
  "plan_file st track_id =
     (case tracks_dir st of
        None \<Rightarrow> None
      | Some es \<Rightarrow> (case map_of es track_id of Some (Directory f) \<Rightarrow> plan_md f | _ \<Rightarrow> None))"

text \<open>The body of the loop of \<open>parse_plan\<close>, on the pair of the tasks so far and the
  current phase.\<close>

definition plan_step :: "task list \<times> string option \<Rightarrow> string \<Rightarrow> task list \<times> string option" where
  "plan_step state line =
     (case state of (tasks, current_phase) \<Rightarrow>
        if prefix ''## '' line then (tasks, Some (strip (drop 3 line)))
        else (case rmatch task_rx line of
          Some (ms, rest) \<Rightarrow>
            (tasks @ [\<lparr>k_phase = current_phase, k_task = strip (rx_group 2 ms),
                        k_status = status_of_char (rx_group 1 ms), k_subtasks = []\<rparr>],
             current_phase)
        | None \<Rightarrow>
            (case rmatch subtask_rx line of
               Some (ms, rest) \<Rightarrow>
                 if tasks \<noteq> []
                 then (butlast tasks
                       @ [(last tasks)\<lparr>k_subtasks := k_subtasks (last tasks)
                            @ [\<lparr>s_subtask = strip (rx_group 2 ms),
                                 s_status = status_of_char (rx_group 1 ms)\<rparr>]\<rparr>],
                       current_phase)
                 else (tasks, current_phase)
             | None \<Rightarrow> (tasks, current_phase))))"

definition parse_plan_text :: "string \<Rightarrow> task list" where
  "parse_plan_text content = fst (foldl plan_step ([], None) (py_split [CHR 0x0A] content))"

definition parse_plan :: "store \<Rightarrow> string \<Rightarrow> task list" where
  "parse_plan st track_id =
     (case plan_file st track_id of
        None \<Rightarrow> []
      | Some raw \<Rightarrow> parse_plan_text (read_text raw))"

text \<open>\<open>-\s*\[[ ~x]\]\s*Task:\s*\<close>, to which the escaped description is appended.\<close>

definition task_prefix_rx :: pattern where
  "task_prefix_rx = lits ''-'' @ [Star Space] @ lits ''['' @ [One (OneOf '' ~x'')]
     @ lits '']'' @ [Star Space] @ lits ''Task:'' @ [Star Space]"

definition write_plan :: "string \<Rightarrow> string \<Rightarrow> store \<Rightarrow> store" where
  "write_plan track_id content st =
     (case tracks_dir st of
        None \<Rightarrow> st
      | Some es \<Rightarrow>
          (case map_of es track_id of
             Some (Directory f) \<Rightarrow>
               st\<lparr>tracks_dir := Some (put_entry track_id (Directory (f\<lparr>plan_md := Some content\<rparr>)) es)\<rparr>
           | _ \<Rightarrow> st))"

definition update_task_status ::
    "string \<Rightarrow> string \<Rightarrow> string \<Rightarrow> store \<Rightarrow> py_error + store" where
  "update_task_status track_id task_description new_status st =
     (case plan_file st track_id of
        None \<Rightarrow> Inr st
      | Some raw \<Rightarrow>
          let content = read_text raw;
              status_char = char_of_status new_status;
              old_pattern = task_prefix_rx @ re_escape task_description;
              new_task = ''- ['' @ [status_char] @ ''] Task: '' @ task_description
          in (case py_sub old_pattern new_task content of
                Inl e \<Rightarrow> Inl e
              | Inr content' \<Rightarrow> Inr (write_plan track_id content' st)))"

section \<open>Examples\<close>

definition done_store :: store where
  "done_store =
     \<lparr>tracks_file = Some (''---'' @ [CHR 0x0A] @ ''## [x] Track: Login'' @ [CHR 0x0A]
        @ ''[conductor/tracks/track-001]''),
      tracks_dir = Some [(''track-001'',
        Directory \<lparr>metadata_json = None, spec_md = None,
                   plan_md = Some ''- [x] Task: Write tests''\<rparr>)]\<rparr>"

definition three_tracks_store :: store where
  "three_tracks_store =
     \<lparr>tracks_file = Some (''---'' @ [CHR 0x0A] @ ''## [x] Track: A'' @ [CHR 0x0A]
          @ ''[conductor/tracks/track-001]'' @ [CHR 0x0A]
        @ ''---'' @ [CHR 0x0A] @ ''## [ ] Track: B'' @ [CHR 0x0A]
          @ ''[conductor/tracks/track-002]'' @ [CHR 0x0A]
        @ ''---'' @ [CHR 0x0A] @ ''## [~] Track: C'' @ [CHR 0x0A]
          @ ''[conductor/tracks/track-003]'' @ [CHR 0x0A]),
      tracks_dir = None\<rparr>"

definition spread_heading_block :: string where
  "spread_heading_block = ''##'' @ [CHR 0x0A] @ ''[ ] Track: a'' @ [CHR 0x0A]
     @ ''[conductor/tracks/t]''"

definition mixed_blocks_doc :: string where
  "mixed_blocks_doc = ''# Tracks'' @ [CHR 0x0A]
     @ ''---'' @ [CHR 0x0A] @ ''no heading here [conductor/tracks/track-001]'' @ [CHR 0x0A]
     @ ''---'' @ [CHR 0x0A] @ ''## [x] Track: No link'' @ [CHR 0x0A]
     @ ''---'' @ [CHR 0x0A] @ ''## [~] Track: Both'' @ [CHR 0x0A]
     @ ''[conductor/tracks/track-003]''"


definition gap_entries :: "(string \<times> dir_entry) list" where
  "gap_entries = [(''track-001'', Directory empty_files), (''notes'', Directory empty_files),
     (''track-007'', PlainFile), (''track-003'', Directory empty_files)]"

definition gap_store :: store where
  "gap_store = \<lparr>tracks_file = None, tracks_dir = Some gap_entries\<rparr>"

section \<open>Registry documents in the written form\<close>

text \<open>
  The documents that \<open>add_track_to_registry\<close> and \<open>update_track_status\<close> write: a
  header followed by one block per track, each block being the text of
  \<open>track_entry\<close> with one of the three markers in the heading.  A block is given by
  its marker, its description and its id.
\<close>

definition block_body :: "char \<Rightarrow> string \<Rightarrow> string \<Rightarrow> string" where
  "block_body m d track_id =
     [CHR 0x0A, CHR 0x0A] @ ''## ['' @ [m] @ ''] Track: '' @ d
     @ [CHR 0x0A, CHR 0x0A] @ ''**Folder:** [conductor/tracks/'' @ track_id
     @ ''](conductor/tracks/'' @ track_id @ '')'' @ [CHR 0x0A, CHR 0x0A]"

definition block_text :: "char \<times> string \<times> string \<Rightarrow> string" where
  "block_text b = (case b of (m, d, track_id) \<Rightarrow> [CHR 0x0A] @ ''---'' @ block_body m d track_id)"

definition registry_doc :: "string \<Rightarrow> (char \<times> string \<times> string) list \<Rightarrow> string" where
  "registry_doc h bs = h @ concat (map block_text bs)"

definition block_track :: "char \<times> string \<times> string \<Rightarrow> track" where
  "block_track b = (case b of (m, d, track_id) \<Rightarrow>
     \<lparr>t_id = track_id, t_description = d, t_status = status_of_char [m],
      t_folder = ''conductor/tracks/'' @ track_id\<rparr>)"

text \<open>A description that \<open>parse_tracks\<close> reads back as it was written: not empty,
  on one line (no line feed, and no carriage return, which is read as one), no white
  space at either end, and free of the separator and of the opening of a folder
  link.\<close>

definition plain_description :: "string \<Rightarrow> bool" where
  "plain_description d \<longleftrightarrow>
     d \<noteq> [] \<and> \<not> is_space (hd d) \<and> \<not> is_space (last d) \<and> CHR 0x0A \<notin> set d
     \<and> CHR 0x0D \<notin> set d \<and> \<not> sublist ''---'' d \<and> \<not> sublist ''[conductor/tracks/'' d"

text \<open>A description the substitution of \<open>update_track_status\<close> takes literally: it
  has no backslash, which the replacement template would interpret, and no \<open>##\<close>, at
  which a heading could start.\<close>

definition literal_description :: "string \<Rightarrow> bool" where
  "literal_description d \<longleftrightarrow> plain_description d \<and> CHR 0x5C \<notin> set d \<and> \<not> sublist ''##'' d"

definition plain_id :: "string \<Rightarrow> bool" where
  "plain_id track_id \<longleftrightarrow>
     track_id \<noteq> [] \<and> CHR '']'' \<notin> set track_id \<and> CHR 0x0D \<notin> set track_id
     \<and> \<not> sublist ''---'' track_id \<and> \<not> sublist ''##'' track_id"

definition plain_block :: "char \<times> string \<times> string \<Rightarrow> bool" where
  "plain_block b \<longleftrightarrow>
     (case b of (m, d, track_id) \<Rightarrow> m \<in> set '' ~x'' \<and> plain_description d \<and> plain_id track_id)"

definition literal_block :: "char \<times> string \<times> string \<Rightarrow> bool" where
  "literal_block b \<longleftrightarrow>
     (case b of (m, d, track_id) \<Rightarrow> m \<in> set '' ~x'' \<and> literal_description d \<and> plain_id track_id)"

text \<open>The id \<open>get_next_track_id\<close> builds from a number.\<close>

definition track_name :: "nat \<Rightarrow> string" where
  "track_name n = ''track-'' @ format_03d n"

text \<open>The blocks after a status update that looked up the description \<open>d0\<close> and
  writes the marker \<open>c\<close>: every block whose description begins with \<open>d0\<close> gets the
  marker.\<close>

definition mark_blocks ::
    "char \<Rightarrow> string \<Rightarrow> (char \<times> string \<times> string) list \<Rightarrow> (char \<times> string \<times> string) list" where
  "mark_blocks c d0 bs = map (\<lambda>(m, d, track_id). (if prefix d0 d then c else m, d, track_id)) bs"

text \<open>No occurrence of \<open>l\<close> starts inside \<open>u\<close> in the text \<open>u @ v\<close>.\<close>

definition no_start :: "string \<Rightarrow> string \<Rightarrow> string \<Rightarrow> bool" where
  "no_start l u v \<longleftrightarrow> (\<forall>i < length u. \<not> prefix l (drop i (u @ v)))"

text \<open>The sections \<open>---\<close> cuts a written document into, the text before the
  first block being \<open>cur\<close>.\<close>

fun sections_of :: "string \<Rightarrow> (char \<times> string \<times> string) list \<Rightarrow> string list" where
  "sections_of cur [] = [cur]"
| "sections_of cur ((m, d, track_id) # bs) =
     (cur @ [CHR 0x0A]) # sections_of (block_body m d track_id) bs"

definition trailing_space_store :: store where
  "trailing_space_store =
     \<lparr>tracks_file = Some (registry_header @ [CHR 0x0A]
        @ track_entry ''track-001'' ''Login ''),
      tracks_dir = Some [(''track-001'',
        Directory \<lparr>metadata_json = Some \<lparr>m_id = ''track-001'', m_description = ''Login '',
                       m_created_at = ''2024-01-01T00:00:00'', m_status = ''pending''\<rparr>,
                   spec_md = Some ''# spec'', plan_md = Some ''# plan''\<rparr>)]\<rparr>"

definition two_calls :: "(string \<times> string \<times> string \<times> string) list" where
  "two_calls = [(''Login'', ''# spec'', ''# plan'', ''2024-01-01T00:00:00''),
     (''Log-out page'', ''# spec 2'', ''# plan 2'', ''2024-01-02T00:00:00'')]"

definition login_blocks :: "(char \<times> string \<times> string) list" where
  "login_blocks = [(CHR '' '', ''Login'', ''track-001''), (CHR '' '', ''Logout'', ''track-002''),
     (CHR ''~'', ''Login'', ''track-003''), (CHR '' '', ''Login page'', ''track-004'')]"

definition login_store :: store where
  "login_store =
     \<lparr>tracks_file = Some (registry_doc (registry_header @ [CHR 0x0A]) login_blocks),
      tracks_dir = None\<rparr>"

definition twin_store :: store where
  "twin_store =
     \<lparr>tracks_file = Some (registry_header @ [CHR 0x0A] @ track_entry ''track-001'' ''Login''
        @ track_entry ''track-002'' ''Login''),
      tracks_dir = None\<rparr>"

definition nested_store :: store where
  "nested_store =
     \<lparr>tracks_file = Some (''---'' @ ''## [ ] Track: a## [x'' @ [CHR 0x0A]
        @ ''[conductor/tracks/k]'' @ [CHR 0x0A]
        @ ''---'' @ ''## [ ] Track: a##  [ ] Track: a## [x''),
      tracks_dir = None\<rparr>"

definition nested_store_1 :: store where
  "nested_store_1 =
     \<lparr>tracks_file = Some (''---'' @ ''## [x] Track: a## [x'' @ [CHR 0x0A]
        @ ''[conductor/tracks/k]'' @ [CHR 0x0A]
        @ ''---'' @ ''## [ ] Track: a## [x] Track: a## [x''),
      tracks_dir = None\<rparr>"

definition nested_store_2 :: store where
  "nested_store_2 =
     \<lparr>tracks_file = Some (''---'' @ ''## [x] Track: a## [x'' @ [CHR 0x0A]
        @ ''[conductor/tracks/k]'' @ [CHR 0x0A]
        @ ''---'' @ ''## [x] Track: a## [x] Track: a## [x''),
      tracks_dir = None\<rparr>"

section \<open>Lemmas on matching, searching, substituting and splitting\<close>

lemma rmatch_lits:
  "rmatch (lits l @ p) s = (if prefix l s then rmatch p (drop (length l) s) else None)"
proof (induction l arbitrary: s)
  case Nil
  then show ?case by (simp add: lits_def)
next
  case (Cons c l)
  then show ?case by (cases s) (auto simp add: lits_def)
qed

lemma rmatch_Star_det:
  assumes "\<And>x xs. cls_mem k x \<Longrightarrow> rmatch p (x # xs) = None"
  shows "rmatch (Star k # p) s = rmatch p (dropWhile (cls_mem k) s)"
proof (induction s)
  case Nil
  then show ?case by simp
next
  case (Cons x xs)
  then show ?case using assms by (simp split: option.splits)
qed

lemma rmatch_Star_all:
  assumes "rmatch p (dropWhile (cls_mem k) s) = Some r"
  shows "rmatch (Star k # p) s = Some r"
  using assms
proof (induction s)
  case Nil
  then show ?case by simp
next
  case (Cons x xs)
  show ?case
  proof (cases "cls_mem k x")
    case True
    with Cons have "rmatch (Star k # p) xs = Some r" by simp
    with True show ?thesis by simp
  next
    case False
    with Cons.prems show ?thesis by simp
  qed
qed

text \<open>A match passes every group boundary of its pattern once, so the groups read
  by \<open>rx_group\<close> exist.\<close>

lemma rmatch_marks_length:
  "rmatch p s = Some (ms, r) \<Longrightarrow> length ms = length (filter (\<lambda>i. i = Mark) p)"
  by (induction p s arbitrary: ms r rule: rmatch.induct)
     (auto split: if_splits option.splits)

lemma rmatch_shorter:
  "rmatch p s = Some (ms, r) \<Longrightarrow> suffix r s \<and> list_all (\<lambda>m. suffix m s \<and> suffix r m) ms"
  by (induction p s arbitrary: ms r rule: rmatch.induct)
     (auto split: if_splits option.splits simp: suffix_Cons list_all_iff)

lemma rsearch_hit: "rmatch p s = Some r \<Longrightarrow> rsearch p s = Some ([], r)"
  by (cases s) auto

lemma rsearch_skip:
  "rmatch p (x # xs) = None \<Longrightarrow>
   rsearch p (x # xs) = (case rsearch p xs of None \<Rightarrow> None | Some (pre, r) \<Rightarrow> Some (x # pre, r))"
  by simp

lemma rsearch_append_skip:
  assumes "\<And>i. i < length u \<Longrightarrow> rmatch p (drop i (u @ v)) = None"
  shows "rsearch p (u @ v)
    = (case rsearch p v of None \<Rightarrow> None | Some (pre, r) \<Rightarrow> Some (u @ pre, r))"
  using assms
proof (induction u)
  case Nil
  then show ?case by (simp split: option.splits)
next
  case (Cons x u)
  have h: "rmatch p (x # u @ v) = None"
    using Cons.prems [of 0] by simp
  have "\<And>i. i < length u \<Longrightarrow> rmatch p (drop i (u @ v)) = None"
    using Cons.prems [of "Suc i" for i] by simp
  then have ih: "rsearch p (u @ v)
    = (case rsearch p v of None \<Rightarrow> None | Some (pre, r) \<Rightarrow> Some (u @ pre, r))"
    by (rule Cons.IH)
  show ?case using h ih by (simp split: option.splits)
qed

lemma rsearch_None_iff:
  "rsearch p s = None \<longleftrightarrow> (\<forall>i \<le> length s. rmatch p (drop i s) = None)"
proof (induction s)
  case Nil
  then show ?case by (simp split: option.splits)
next
  case (Cons x xs)
  show ?case
  proof
    assume a: "rsearch p (x # xs) = None"
    then have 1: "rmatch p (x # xs) = None" and 2: "rsearch p xs = None"
      by (auto split: option.splits)
    show "\<forall>i \<le> length (x # xs). rmatch p (drop i (x # xs)) = None"
    proof (intro allI impI)
      fix i assume "i \<le> length (x # xs)"
      then show "rmatch p (drop i (x # xs)) = None"
        using 1 2 Cons.IH by (cases i) auto
    qed
  next
    assume a: "\<forall>i \<le> length (x # xs). rmatch p (drop i (x # xs)) = None"
    then have 1: "rmatch p (x # xs) = None" by (metis drop0 le0)
    have "\<forall>i \<le> length xs. rmatch p (drop i xs) = None"
    proof (intro allI impI)
      fix i assume "i \<le> length xs"
      then have "Suc i \<le> length (x # xs)" by simp
      with a have "rmatch p (drop (Suc i) (x # xs)) = None" by blast
      then show "rmatch p (drop i xs) = None" by simp
    qed
    then have "rsearch p xs = None" using Cons.IH by simp
    with 1 show "rsearch p (x # xs) = None" by simp
  qed
qed

lemma sub_all_skip:
  "rmatch p (x # xs) = None \<Longrightarrow> sub_all p r (x # xs) = x # sub_all p r xs"
  by (subst sub_all.simps) simp

lemma sub_all_Nil: "rmatch p [] = None \<Longrightarrow> sub_all p r [] = []"
  by (subst sub_all.simps) simp

lemma sub_all_hit:
  "rmatch p s = Some (ms, rest) \<Longrightarrow> length rest < length s \<Longrightarrow>
   sub_all p r s = fill r (between s rest) @ sub_all p r rest"
  by (subst sub_all.simps) simp

lemma sub_all_append_skip:
  assumes "\<And>i. i < length u \<Longrightarrow> rmatch p (drop i (u @ v)) = None"
  shows "sub_all p r (u @ v) = u @ sub_all p r v"
  using assms
proof (induction u)
  case Nil
  then show ?case by simp
next
  case (Cons x u)
  have h: "rmatch p (x # u @ v) = None"
    using Cons.prems [of 0] by simp
  have "\<And>i. i < length u \<Longrightarrow> rmatch p (drop i (u @ v)) = None"
    using Cons.prems [of "Suc i" for i] by simp
  then have ih: "sub_all p r (u @ v) = u @ sub_all p r v"
    by (rule Cons.IH)
  show ?case using h ih by (simp add: sub_all_skip)
qed

lemma split_acc_Nil: "split_acc sep cur [] = [cur]"
  by (subst split_acc.simps) simp

lemma split_acc_hit:
  "sep \<noteq> [] \<Longrightarrow> split_acc sep cur (sep @ s) = cur # split_acc sep [] s"
  by (subst split_acc.simps) simp

lemma split_acc_skip:
  "\<not> prefix sep (x # xs) \<Longrightarrow> split_acc sep cur (x # xs) = split_acc sep (cur @ [x]) xs"
  by (subst split_acc.simps) simp

lemma split_acc_append_skip:
  assumes "\<And>i. i < length u \<Longrightarrow> \<not> prefix sep (drop i (u @ v))"
  shows "split_acc sep cur (u @ v) = split_acc sep (cur @ u) v"
  using assms
proof (induction u arbitrary: cur)
  case Nil
  then show ?case by simp
next
  case (Cons x u)
  have h: "\<not> prefix sep (x # u @ v)"
    using Cons.prems [of 0] by simp
  have "\<And>i. i < length u \<Longrightarrow> \<not> prefix sep (drop i (u @ v))"
    using Cons.prems [of "Suc i" for i] by simp
  then have ih: "split_acc sep (cur @ [x]) (u @ v) = split_acc sep ((cur @ [x]) @ u) v"
    by (rule Cons.IH)
  show ?case using h ih by (simp add: split_acc_skip)
qed

lemma no_prefix_in_clean:
  assumes "\<not> sublist l u" and "v = [] \<or> hd v \<notin> set l" and "i < length u"
  shows "\<not> prefix l (drop i (u @ v))"
proof
  assume p: "prefix l (drop i (u @ v))"
  have d: "drop i (u @ v) = drop i u @ v" using assms(3) by simp
  from p d have "prefix l (drop i u) \<or> (\<exists>us. l = drop i u @ us \<and> prefix us v)"
    by (simp add: prefix_append)
  then show False
  proof
    assume "prefix l (drop i u)"
    then have "sublist l (drop i u)" by simp
    then have "sublist l u"
      using sublist_drop sublist_order.order_trans by blast
    with assms(1) show False by simp
  next
    assume "\<exists>us. l = drop i u @ us \<and> prefix us v"
    then obtain us where us: "l = drop i u @ us" "prefix us v" by blast
    show False
    proof (cases us)
      case Nil
      with us have "l = drop i u" by simp
      then have "sublist l u" by (metis sublist_drop)
      with assms(1) show False by simp
    next
      case (Cons y ys)
      with us(2) have "v \<noteq> []" "hd v = y" by (auto simp: prefix_def)
      moreover have "y \<in> set l" using us(1) Cons by simp
      ultimately show False using assms(2) by auto
    qed
  qed
qed

section \<open>Status updates: missing files and unknown statuses\<close>

text \<open>
  C10.  When the registry document \<open>tracks.md\<close> does not exist,
  \<open>update_track_status\<close> raises the file-not-found error: the document is read
  before the track is looked up.  When the plan of the track does not exist,
  \<open>update_task_status\<close> returns without raising and leaves the store as it is.
\<close>

theorem update_status_missing_file:
  "(tracks_file st = None \<longrightarrow> update_track_status track_id s st = Inl FileNotFoundError)
   \<and> (plan_file st track_id = None \<longrightarrow> update_task_status track_id d s st = Inr st)"
  by (simp add: update_track_status_def update_task_status_def)

theorem update_status_missing_file_witness:
  "tracks_file fresh_store = None
   \<and> plan_file fresh_store ''track-001'' = None
   \<and> update_track_status ''track-001'' ''completed'' fresh_store = Inl FileNotFoundError
   \<and> update_task_status ''track-001'' ''Write tests'' ''completed'' fresh_store
       = Inr fresh_store"
  using update_status_missing_file [of fresh_store "''track-001''" "''completed''" "''Write tests''"]
  by (simp add: fresh_store_def plan_file_def)

text \<open>
  C9.  A status outside \<open>pending\<close>, \<open>in_progress\<close>, \<open>completed\<close> is not rejected:
  its marker is the blank of \<open>pending\<close>, and both updates do exactly what they do for
  \<open>pending\<close>, so the matched heading or task line is reset to pending.
\<close>

theorem invalid_status_is_pending:
  assumes "s \<notin> {''pending'', ''in_progress'', ''completed''}"
  shows "char_of_status s = CHR '' ''
    \<and> update_track_status track_id s st = update_track_status track_id ''pending'' st
    \<and> update_task_status track_id d s st = update_task_status track_id d ''pending'' st"
proof -
  have c: "char_of_status s = CHR '' ''"
    using assms by (simp add: char_of_status_def)
  have p: "char_of_status ''pending'' = CHR '' ''"
    by (simp add: char_of_status_def)
  show ?thesis
    unfolding update_track_status_def update_task_status_def c p by simp
qed

lemma done_store_pending_track:
  "update_track_status ''track-001'' ''pending'' done_store
   = Inr (done_store\<lparr>tracks_file := Some (''---'' @ [CHR 0x0A] @ ''## [ ] Track: Login''
        @ [CHR 0x0A] @ ''[conductor/tracks/track-001]'')\<rparr>)"
  by code_simp

lemma done_store_pending_task:
  "update_task_status ''track-001'' ''Write tests'' ''pending'' done_store
   = Inr (done_store\<lparr>tracks_dir := Some [(''track-001'',
        Directory \<lparr>metadata_json = None, spec_md = None,
                   plan_md = Some ''- [ ] Task: Write tests''\<rparr>)]\<rparr>)"
  by code_simp

theorem invalid_status_is_pending_witness:
  "''archived'' \<notin> {''pending'', ''in_progress'', ''completed''}
   \<and> update_track_status ''track-001'' ''archived'' done_store
       = Inr (done_store\<lparr>tracks_file := Some (''---'' @ [CHR 0x0A] @ ''## [ ] Track: Login''
            @ [CHR 0x0A] @ ''[conductor/tracks/track-001]'')\<rparr>)
   \<and> update_task_status ''track-001'' ''Write tests'' ''archived'' done_store
       = Inr (done_store\<lparr>tracks_dir := Some [(''track-001'',
            Directory \<lparr>metadata_json = None, spec_md = None,
                       plan_md = Some ''- [ ] Task: Write tests''\<rparr>)]\<rparr>)"
proof -
  have h: "''archived'' \<notin> {''pending'', ''in_progress'', ''completed''}"
    by simp
  show ?thesis
    using h invalid_status_is_pending [OF h, of "''track-001''" done_store "''Write tests''"]
    by (simp only: done_store_pending_track done_store_pending_task simp_thms)
qed

section \<open>Status updates: a track that is not found\<close>

text \<open>
  C5.  When no track with the given id is found, \<open>update_track_status\<close> is meant to
  write nothing and to return without an error.  It does so whenever the registry
  document exists (\<open>update_unknown_track_existing_file\<close>).  On a store without the
  registry document the parse finds no track either, and the call raises the
  file-not-found error.
\<close>

theorem update_unknown_track_missing_file:
  "get_track_by_id fresh_store ''track-001'' = None
   \<and> update_track_status ''track-001'' ''completed'' fresh_store = Inl FileNotFoundError"
  by (simp add: get_track_by_id_def parse_tracks_def update_track_status_def fresh_store_def)

lemma update_unknown_track_existing_file:
  "tracks_file st \<noteq> None \<Longrightarrow> get_track_by_id st track_id = None
   \<Longrightarrow> update_track_status track_id s st = Inr st"
  by (auto simp add: update_track_status_def)

section \<open>The next pending track\<close>

text \<open>
  C6.  \<open>get_next_pending_track\<close> returns the first track, in the order of the
  parse, whose status is not \<open>completed\<close>: every track before it is completed.  It
  returns nothing exactly when every parsed track is completed, which includes the
  case of no track at all.
\<close>

theorem get_next_pending_track_first:
  "(get_next_pending_track st = None
      \<longleftrightarrow> (\<forall>t \<in> set (parse_tracks st). t_status t = ''completed''))
   \<and> (get_next_pending_track st = Some t
      \<longleftrightarrow> (\<exists>i < length (parse_tracks st). parse_tracks st ! i = t
            \<and> t_status t \<noteq> ''completed''
            \<and> (\<forall>j < i. t_status (parse_tracks st ! j) = ''completed'')))"
  unfolding get_next_pending_track_def find_None_iff find_Some_iff by auto

lemma three_tracks_parse:
  "parse_tracks three_tracks_store =
     [\<lparr>t_id = ''track-001'', t_description = ''A'', t_status = ''completed'',
        t_folder = ''conductor/tracks/track-001''\<rparr>,
      \<lparr>t_id = ''track-002'', t_description = ''B'', t_status = ''pending'',
        t_folder = ''conductor/tracks/track-002''\<rparr>,
      \<lparr>t_id = ''track-003'', t_description = ''C'', t_status = ''in_progress'',
        t_folder = ''conductor/tracks/track-003''\<rparr>]"
  by code_simp

theorem get_next_pending_track_first_witness:
  "get_next_pending_track three_tracks_store
     = Some \<lparr>t_id = ''track-002'', t_description = ''B'', t_status = ''pending'',
             t_folder = ''conductor/tracks/track-002''\<rparr>
   \<and> map t_status (parse_tracks three_tracks_store)
     = [''completed'', ''pending'', ''in_progress'']"
proof -
  let ?t = "\<lparr>t_id = ''track-002'', t_description = ''B'', t_status = ''pending'',
             t_folder = ''conductor/tracks/track-002''\<rparr>"
  have "\<exists>i < length (parse_tracks three_tracks_store).
          parse_tracks three_tracks_store ! i = ?t \<and> t_status ?t \<noteq> ''completed''
          \<and> (\<forall>j < i. t_status (parse_tracks three_tracks_store ! j) = ''completed'')"
    unfolding three_tracks_parse by (rule exI [of _ 1]) simp
  then have "get_next_pending_track three_tracks_store = Some ?t"
    using get_next_pending_track_first [of three_tracks_store ?t] by blast
  then show ?thesis by (simp add: three_tracks_parse)
qed

section \<open>Blocks that contribute no record\<close>

lemma rsearch_Some_rmatch:
  "rsearch p s = Some (pre, r) \<Longrightarrow> s = pre @ drop (length pre) s \<and> rmatch p (drop (length pre) s) = Some r"
proof (induction s arbitrary: pre)
  case Nil
  then show ?case by (auto split: option.splits)
next
  case (Cons x xs)
  then show ?case by (auto split: option.splits)
qed

lemma rmatch_folder_marks:
  assumes "rmatch folder_rx s = Some (ms, rest)"
  shows "\<exists>a b. ms = [a, b] \<and> length b < length a"
proof -
  let ?l = "''[conductor/tracks/''"
  let ?q = "[Star (NoneOf '']''), Mark, Lit (CHR '']'')]"
  have f: "folder_rx = lits ?l @ (Mark # One (NoneOf '']'') # ?q)"
    by (simp add: folder_rx_def rx_plus_def lits_def)
  from assms have m: "rmatch (Mark # One (NoneOf '']'') # ?q) (drop (length ?l) s) = Some (ms, rest)"
    unfolding f rmatch_lits by (simp split: if_splits)
  let ?s = "drop (length ?l) s"
  from m obtain ms' where ms: "ms = ?s # ms'"
    and o: "rmatch (One (NoneOf '']'') # ?q) ?s = Some (ms', rest)"
    by (auto split: option.splits)
  from o obtain x xs where s: "?s = x # xs" and q: "rmatch ?q xs = Some (ms', rest)"
    by (cases ?s) (auto split: if_splits)
  have "\<exists>b. ms' = [b] \<and> suffix b xs"
    using q
  proof (induction xs)
    case Nil
    then show ?case by simp
  next
    case (Cons y ys)
    then show ?case
      by (auto split: if_splits option.splits simp: suffix_Cons)
  qed
  then obtain b where b: "ms' = [b]" "suffix b xs" by blast
  then have "length b \<le> length xs" by (simp add: suffix_length_le)
  then have "length b < length ?s" unfolding s by simp
  with ms b show ?thesis by blast
qed

lemma folder_group_nonempty:
  assumes "rsearch folder_rx s = Some (pre, ms, rest)"
  shows "rx_group 1 ms \<noteq> []"
proof -
  from assms have "rmatch folder_rx (drop (length pre) s) = Some (ms, rest)"
    using rsearch_Some_rmatch by blast
  then obtain a b where "ms = [a, b]" "length b < length a"
    using rmatch_folder_marks by blast
  then show ?thesis by (auto simp add: rx_group_def between_def)
qed

lemma parse_section_Some_iff:
  "parse_section sec \<noteq> None
     \<longleftrightarrow> rsearch heading_rx sec \<noteq> None \<and> rsearch folder_rx sec \<noteq> None"
  by (auto simp add: parse_section_def Let_def simp del: One_nat_def
        dest: folder_group_nonempty split: option.splits)

lemma parse_section_id_nonempty: "parse_section sec = Some t \<Longrightarrow> t_id t \<noteq> []"
  by (auto simp add: parse_section_def Let_def split: option.splits if_splits)

lemma parse_sections_map_filter: "parse_sections secs = List.map_filter parse_section secs"
  by (induction secs) (auto simp add: List.map_filter_simps split: option.splits)

text \<open>
  C7.  \<open>parse_tracks\<close> returns, in order, the records of the blocks that follow the
  first \<open>---\<close>; a block contributes a record exactly when both the heading pattern
  and the folder-link pattern have a match somewhere in the block.  A block without
  a match of the heading pattern is skipped, a block without a folder link is skipped,
  neither is an error, and every record has a non-empty id.  The patterns are searched
  in the whole block: their \<open>\s*\<close> may run over line breaks.
\<close>

theorem parse_skips_blocks:
  "parse_text content = List.map_filter parse_section (tl (py_split ''---'' content))
   \<and> (\<forall>sec. parse_section sec \<noteq> None
          \<longleftrightarrow> rsearch heading_rx sec \<noteq> None \<and> rsearch folder_rx sec \<noteq> None)
   \<and> (\<forall>t \<in> set (parse_text content). t_id t \<noteq> [])"
proof -
  have 1: "parse_text content = List.map_filter parse_section (tl (py_split ''---'' content))"
    by (simp add: parse_text_def parse_sections_map_filter)
  have 3: "\<forall>t \<in> set (parse_text content). t_id t \<noteq> []"
    unfolding 1 by (auto simp add: List.map_filter_def dest: parse_section_id_nonempty)
  show ?thesis using 1 3 parse_section_Some_iff by blast
qed

lemma mixed_blocks_sections:
  "tl (py_split ''---'' mixed_blocks_doc)
   = [[CHR 0x0A] @ ''no heading here [conductor/tracks/track-001]'' @ [CHR 0x0A],
      [CHR 0x0A] @ ''## [x] Track: No link'' @ [CHR 0x0A],
      [CHR 0x0A] @ ''## [~] Track: Both'' @ [CHR 0x0A] @ ''[conductor/tracks/track-003]'']"
  by code_simp

lemma mixed_blocks_no_heading:
  "rsearch heading_rx ([CHR 0x0A] @ ''no heading here [conductor/tracks/track-001]'' @ [CHR 0x0A])
   = None"
  by code_simp

lemma mixed_blocks_no_link:
  "rsearch folder_rx ([CHR 0x0A] @ ''## [x] Track: No link'' @ [CHR 0x0A]) = None"
  by code_simp

lemma mixed_blocks_parse:
  "parse_text mixed_blocks_doc
   = [\<lparr>t_id = ''track-003'', t_description = ''Both'', t_status = ''in_progress'',
       t_folder = ''conductor/tracks/track-003''\<rparr>]"
  by code_simp

theorem parse_skips_blocks_witness:
  "parse_section ([CHR 0x0A] @ ''no heading here [conductor/tracks/track-001]'' @ [CHR 0x0A]) = None
   \<and> parse_section ([CHR 0x0A] @ ''## [x] Track: No link'' @ [CHR 0x0A]) = None
   \<and> List.map_filter parse_section (tl (py_split ''---'' mixed_blocks_doc))
       = [\<lparr>t_id = ''track-003'', t_description = ''Both'', t_status = ''in_progress'',
           t_folder = ''conductor/tracks/track-003''\<rparr>]"
proof -
  note t = parse_skips_blocks [of mixed_blocks_doc]
  from t have mf: "parse_text mixed_blocks_doc
      = List.map_filter parse_section (tl (py_split ''---'' mixed_blocks_doc))"
    by (rule conjunct1)
  from t have iff: "\<forall>sec. parse_section sec \<noteq> None
      \<longleftrightarrow> rsearch heading_rx sec \<noteq> None \<and> rsearch folder_rx sec \<noteq> None"
    by (rule conjunct2 [THEN conjunct1])
  have 1: "parse_section ([CHR 0x0A] @ ''no heading here [conductor/tracks/track-001]''
      @ [CHR 0x0A]) = None"
    using iff mixed_blocks_no_heading by blast
  have 2: "parse_section ([CHR 0x0A] @ ''## [x] Track: No link'' @ [CHR 0x0A]) = None"
    using iff mixed_blocks_no_link by blast
  have 3: "List.map_filter parse_section (tl (py_split ''---'' mixed_blocks_doc))
       = [\<lparr>t_id = ''track-003'', t_description = ''Both'', t_status = ''in_progress'',
           t_folder = ''conductor/tracks/track-003''\<rparr>]"
    unfolding mf [symmetric] by (rule mixed_blocks_parse)
  show ?thesis using 1 2 3 by blast
qed

text \<open>A heading need not lie on one line: in this block no line has a match of the
  heading pattern, and the block is parsed into a record all the same.\<close>

theorem heading_over_two_lines_counterexample:
  "py_split [CHR 0x0A] spread_heading_block = [''##'', ''[ ] Track: a'', ''[conductor/tracks/t]'']
   \<and> rsearch heading_rx ''##'' = None
   \<and> rsearch heading_rx ''[ ] Track: a'' = None
   \<and> rsearch heading_rx ''[conductor/tracks/t]'' = None
   \<and> parse_text (''---'' @ spread_heading_block)
       = [\<lparr>t_id = ''t'', t_description = ''a'', t_status = ''pending'',
           t_folder = ''conductor/tracks/t''\<rparr>]"
  by code_simp

section \<open>Subtask lines of a plan\<close>

lemma is_space_newline: "is_space (CHR 0x0A)"
  by (simp add: is_space_def)

lemma rmatch_Star_Dot_end:
  "rmatch [Star Dot, Mark] s
   = Some ([dropWhile (\<lambda>c. c \<noteq> CHR 0x0A) s], dropWhile (\<lambda>c. c \<noteq> CHR 0x0A) s)"
  by (induction s) auto

lemma rmatch_rest_of_line:
  assumes "dropWhile is_space s = x # xs"
  shows "rmatch [Star Space, Mark, One Dot, Star Dot, Mark] s
    = Some ([x # xs, dropWhile (\<lambda>c. c \<noteq> CHR 0x0A) xs], dropWhile (\<lambda>c. c \<noteq> CHR 0x0A) xs)"
proof -
  have "\<not> is_space x"
    using assms by (metis hd_dropWhile list.sel(1) list.distinct(1))
  then have x: "x \<noteq> CHR 0x0A"
    using is_space_newline by auto
  have "rmatch [Mark, One Dot, Star Dot, Mark] (dropWhile (cls_mem Space) s)
    = Some ([x # xs, dropWhile (\<lambda>c. c \<noteq> CHR 0x0A) xs], dropWhile (\<lambda>c. c \<noteq> CHR 0x0A) xs)"
  proof -
    have "dropWhile (cls_mem Space) s = x # xs"
      using assms by (simp add: cls_mem.simps [abs_def])
    then show ?thesis using x by (simp add: rmatch_Star_Dot_end)
  qed
  then show ?thesis by (rule rmatch_Star_all)
qed















section \<open>The next track id\<close>

lemma rmatch_Star_Mark_end:
  "rmatch [Star k, Mark] s = Some ([dropWhile (cls_mem k) s], dropWhile (cls_mem k) s)"
  by (induction s) auto

lemma digit_char: "d < 10 \<Longrightarrow> is_digit (char_of (48 + d)) \<and> digit_val (char_of (48 + d)) = d"
  by (simp add: is_digit_def digit_val_def)

lemma decimal_digits: "list_all is_digit (decimal n) \<and> decimal n \<noteq> []"
proof (induction n rule: decimal.induct)
  case (1 n)
  show ?case
  proof (cases "n < 10")
    case True
    then show ?thesis by (subst decimal.simps, subst (2) decimal.simps) (simp add: digit_char)
  next
    case False
    then have "list_all is_digit (decimal (n div 10))" using 1 by simp
    moreover have "is_digit (char_of (48 + n mod 10))" by (simp add: digit_char)
    ultimately show ?thesis using False
      by (subst decimal.simps, subst (2) decimal.simps) simp
  qed
qed

lemma py_int_snoc: "py_int (ds @ [d]) = 10 * py_int ds + digit_val d"
  by (simp add: py_int_def)

lemma py_int_decimal: "py_int (decimal n) = n"
proof (induction n rule: decimal.induct)
  case (1 n)
  show ?case
  proof (cases "n < 10")
    case True
    then show ?thesis by (subst decimal.simps) (simp add: py_int_def digit_char)
  next
    case False
    then have "py_int (decimal (n div 10)) = n div 10" using 1 by simp
    then show ?thesis using False
      by (subst decimal.simps) (simp add: py_int_snoc digit_char)
  qed
qed

lemma py_int_zeros: "py_int (replicate k (CHR ''0'') @ ds) = py_int ds"
proof -
  have z: "digit_val (CHR ''0'') = 0"
    by (simp add: digit_val_def)
  have "foldl (\<lambda>n d. 10 * n + digit_val d) 0 (replicate k (CHR ''0'')) = 0"
  proof (induction k)
    case 0
    show ?case by simp
  next
    case (Suc k)
    have "replicate (Suc k) (CHR ''0'') = replicate k (CHR ''0'') @ [CHR ''0'']"
      by (simp add: replicate_append_same)
    then show ?case using Suc z by simp
  qed
  then show ?thesis by (simp add: py_int_def)
qed

lemma format_03d_digits: "list_all is_digit (format_03d n) \<and> format_03d n \<noteq> []"
proof -
  have "is_digit (CHR ''0'')" by (simp add: is_digit_def)
  then show ?thesis
    using decimal_digits [of n] by (auto simp add: format_03d_def list_all_iff)
qed

lemma format_03d_value: "py_int (format_03d n) = n"
  by (simp add: format_03d_def py_int_zeros py_int_decimal)

lemma format_03d_length: "length (format_03d n) = max 3 (length (decimal n))"
  by (simp add: format_03d_def)

lemma track_number_plain:
  assumes "ds \<noteq> []" and "list_all is_digit ds"
  shows "track_number (''track-'' @ ds) = Some (py_int ds)"
proof -
  obtain x xs where ds: "ds = x # xs" using assms(1) by (cases ds) auto
  have dw: "dropWhile (cls_mem Digit) xs = []"
    using assms(2) ds by (simp add: list_all_iff)
  have "rmatch track_id_rx (''track-'' @ ds) = Some ([ds, []], [])"
    unfolding track_id_rx_def rmatch_lits rx_plus_def
    using assms(2) ds by (simp add: rmatch_Star_Mark_end dw)
  then have "rsearch track_id_rx (''track-'' @ ds) = Some ([], [ds, []], [])"
    by (rule rsearch_hit)
  then show ?thesis
    by (simp add: track_number_def rx_group_def between_def)
qed

text \<open>
  C4.  \<open>get_next_track_id\<close> returns \<open>track-001\<close> when the tracks directory is absent
  or no subdirectory of it has a name in which \<open>track-\<close> followed by digits occurs;
  otherwise it returns \<open>track-\<close> followed by the maximum of those numbers plus one,
  padded with zeros to three digits.  Nothing fills a gap: with the subdirectories
  \<open>track-001\<close> and \<open>track-003\<close> the result is \<open>track-004\<close>.
\<close>

theorem get_next_track_id_max:
  "get_next_track_id st =
     (case tracks_dir st of
        None \<Rightarrow> ''track-001''
      | Some es \<Rightarrow>
          if {n. \<exists>name e. (name, e) \<in> set es \<and> is_dir e \<and> track_number name = Some n} = {}
          then ''track-001''
          else ''track-'' @ format_03d
                 (Max {n. \<exists>name e. (name, e) \<in> set es \<and> is_dir e \<and> track_number name = Some n}
                  + 1))"
proof (cases "tracks_dir st")
  case None
  then show ?thesis by (simp add: get_next_track_id_def)
next
  case (Some es)
  let ?N = "{n. \<exists>name e. (name, e) \<in> set es \<and> is_dir e \<and> track_number name = Some n}"
  let ?existing = "map fst (filter (\<lambda>(name, e). is_dir e) es)"
  let ?numbers = "List.map_filter track_number ?existing"
  have n: "set ?numbers = ?N"
  proof
    show "set ?numbers \<subseteq> ?N"
      by (auto simp add: List.map_filter_def) blast
    show "?N \<subseteq> set ?numbers"
    proof
      fix x assume "x \<in> ?N"
      then obtain name e where h: "(name, e) \<in> set es" "is_dir e" "track_number name = Some x"
        by blast
      then have "name \<in> set ?existing" by force
      with h(3) show "x \<in> set ?numbers"
        by (force simp add: List.map_filter_def)
    qed
  qed
  have e: "?existing = [] \<Longrightarrow> ?N = {}"
    by (auto simp add: filter_empty_conv)
  have ne: "?numbers \<noteq> [] \<longleftrightarrow> ?N \<noteq> {}"
    unfolding n [symmetric] by simp
  show ?thesis
    unfolding get_next_track_id_def Some Let_def option.case
    using e ne n by (simp only: split: if_splits) auto
qed

text \<open>The pattern is searched in the name, so it may stand anywhere in it, and the
  number is the run of digits after its first occurrence.\<close>

lemma track_number_inside_name:
  "track_number ''old-track-12-copy'' = Some 12 \<and> track_number ''notes'' = None
   \<and> track_number ''track-'' = None"
  by code_simp

lemma gap_store_next: "get_next_track_id gap_store = ''track-004''"
  by code_simp

lemma fresh_store_next: "get_next_track_id fresh_store = ''track-001''"
  by code_simp

lemma track_number_001: "track_number ''track-001'' = Some 1"
  by code_simp

theorem get_next_track_id_max_witness:
  "get_next_track_id fresh_store = ''track-001''
   \<and> get_next_track_id gap_store = ''track-004''
   \<and> ''track-'' @ format_03d
         (Max {n. \<exists>name e. (name, e) \<in> set gap_entries \<and> is_dir e
                  \<and> track_number name = Some n} + 1) = ''track-004''"
proof -
  let ?N = "{n. \<exists>name e. (name, e) \<in> set gap_entries \<and> is_dir e
                  \<and> track_number name = Some n}"
  have "(''track-001'', Directory empty_files) \<in> set gap_entries"
    by (simp add: gap_entries_def)
  moreover have "is_dir (Directory empty_files)"
    by (simp add: is_dir_def)
  ultimately have "1 \<in> ?N"
    using track_number_001 by blast
  then have ne: "?N \<noteq> {}" by blast
  have d: "tracks_dir gap_store = Some gap_entries"
    by (simp add: gap_store_def)
  have "get_next_track_id gap_store
      = (if ?N = {} then ''track-001'' else ''track-'' @ format_03d (Max ?N + 1))"
    using get_next_track_id_max [of gap_store] unfolding d option.case .
  then have "get_next_track_id gap_store = ''track-'' @ format_03d (Max ?N + 1)"
    unfolding if_not_P [OF ne] .
  then show ?thesis
    using gap_store_next fresh_store_next by simp
qed

section \<open>Reading written documents back\<close>


lemma no_start_Nil: "no_start l [] v"
  by (simp add: no_start_def)

lemma no_start_Cons:
  "no_start l (x # u) v \<longleftrightarrow> \<not> prefix l (x # u @ v) \<and> no_start l u v"
proof
  assume a: "no_start l (x # u) v"
  have "\<not> prefix l (x # u @ v)"
    using a [unfolded no_start_def, rule_format, of 0] by simp
  moreover have "no_start l u v"
    unfolding no_start_def
  proof (intro allI impI)
    fix i assume "i < length u"
    then show "\<not> prefix l (drop i (u @ v))"
      using a [unfolded no_start_def, rule_format, of "Suc i"] by simp
  qed
  ultimately show "\<not> prefix l (x # u @ v) \<and> no_start l u v" by simp
next
  assume a: "\<not> prefix l (x # u @ v) \<and> no_start l u v"
  show "no_start l (x # u) v"
    unfolding no_start_def
  proof (intro allI impI)
    fix i assume "i < length (x # u)"
    then show "\<not> prefix l (drop i ((x # u) @ v))"
      using a by (cases i) (auto simp add: no_start_def)
  qed
qed

lemma no_start_append:
  "no_start l (u1 @ u2) v \<longleftrightarrow> no_start l u1 (u2 @ v) \<and> no_start l u2 v"
  by (induction u1) (auto simp add: no_start_Nil no_start_Cons)

lemma no_start_clean:
  "\<not> sublist l u \<Longrightarrow> v = [] \<or> hd v \<notin> set l \<Longrightarrow> no_start l u v"
  unfolding no_start_def using no_prefix_in_clean by blast

lemma split_acc_no_start:
  "no_start sep u v \<Longrightarrow> split_acc sep cur (u @ v) = split_acc sep (cur @ u) v"
  unfolding no_start_def by (rule split_acc_append_skip) simp

lemma rmatch_lits_None: "\<not> prefix l s \<Longrightarrow> rmatch (lits l @ p) s = None"
  by (simp add: rmatch_lits)

lemma rsearch_no_start:
  "no_start l u v \<Longrightarrow>
   rsearch (lits l @ p) (u @ v)
   = (case rsearch (lits l @ p) v of None \<Rightarrow> None | Some (pre, r) \<Rightarrow> Some (u @ pre, r))"
  unfolding no_start_def by (rule rsearch_append_skip) (simp add: rmatch_lits_None)

lemma sub_all_no_start:
  "no_start l u v \<Longrightarrow> sub_all (lits l @ p) r (u @ v) = u @ sub_all (lits l @ p) r v"
  unfolding no_start_def by (rule sub_all_append_skip) (simp add: rmatch_lits_None)

lemma block_body_no_sep:
  assumes "plain_block (m, d, tid)"
  shows "no_start ''---'' (block_body m d tid) rest"
proof -
  from assms have d: "\<not> sublist ''---'' d" and t: "\<not> sublist ''---'' tid"
    and m: "m \<noteq> CHR ''-''"
    by (auto simp add: plain_block_def plain_description_def plain_id_def)
  show ?thesis
    unfolding block_body_def
    using d t m
    by (simp add: no_start_append no_start_Cons no_start_Nil no_start_clean)
qed


lemma heading_rx_front:
  assumes "m \<in> set '' ~x''"
  shows "rmatch heading_rx (''## ['' @ [m] @ ''] Track:'' @ s)
    = (case rmatch [Star Space, Mark, One Dot, Star Dot, Mark] s of
         None \<Rightarrow> None
       | Some (ms, r) \<Rightarrow> Some ((m # '']'' @ '' Track:'' @ s) # ('']'' @ '' Track:'' @ s) # ms, r))"
  using assms
  by (simp add: heading_rx_def rx_plus_def lits_def is_space_def split: option.splits)

lemma strip_plain: "plain_description d \<Longrightarrow> strip d = d"
proof -
  assume p: "plain_description d"
  then have 1: "dropWhile is_space d = d"
    by (cases d) (auto simp add: plain_description_def)
  from p have "rev d \<noteq> []" and "\<not> is_space (hd (rev d))"
    by (auto simp add: plain_description_def hd_rev)
  then have 2: "dropWhile is_space (rev d) = rev d"
    by (cases "rev d") auto
  show ?thesis unfolding strip_def 1 2 by simp
qed

lemma heading_match_body:
  assumes m: "m \<in> set '' ~x''" and d: "plain_description d"
  shows "rmatch heading_rx (''## ['' @ [m] @ ''] Track: '' @ d @ CHR 0x0A # rest)
    = Some ([m # '']'' @ '' Track: '' @ d @ CHR 0x0A # rest,
             '']'' @ '' Track: '' @ d @ CHR 0x0A # rest,
             d @ CHR 0x0A # rest, CHR 0x0A # rest], CHR 0x0A # rest)"
proof -
  obtain x xs where dx: "d = x # xs" and x: "\<not> is_space x" and nl: "CHR 0x0A \<notin> set xs"
    using d by (cases d) (auto simp add: plain_description_def)
  have dw: "dropWhile is_space (CHR '' '' # d @ CHR 0x0A # rest) = x # (xs @ CHR 0x0A # rest)"
    using x by (simp add: dx is_space_def)
  have dn: "dropWhile (\<lambda>c. c \<noteq> CHR 0x0A) (xs @ CHR 0x0A # rest) = CHR 0x0A # rest"
    using nl by (induction xs) auto
  have t: "rmatch [Star Space, Mark, One Dot, Star Dot, Mark] (CHR '' '' # d @ CHR 0x0A # rest)
    = Some ([d @ CHR 0x0A # rest, CHR 0x0A # rest], CHR 0x0A # rest)"
    using rmatch_rest_of_line [OF dw] unfolding dn by (simp add: dx)
  have e: "''## ['' @ [m] @ ''] Track: '' @ d @ CHR 0x0A # rest
    = ''## ['' @ [m] @ ''] Track:'' @ (CHR '' '' # d @ CHR 0x0A # rest)"
    by simp
  show ?thesis
    unfolding e heading_rx_front [OF m] t by simp
qed

lemma rsearch_skip_Some:
  "rmatch p (x # xs) = None \<Longrightarrow> rsearch p xs = Some (pre, r)
   \<Longrightarrow> rsearch p (x # xs) = Some (x # pre, r)"
  by simp

lemma folder_match:
  assumes "plain_id tid"
  shows "rmatch folder_rx (''[conductor/tracks/'' @ tid @ CHR '']'' # rest)
    = Some ([tid @ CHR '']'' # rest, CHR '']'' # rest], rest)"
proof -
  obtain x xs where t: "tid = x # xs" and x: "x \<noteq> CHR '']''" and xs: "CHR '']'' \<notin> set xs"
    using assms by (cases tid) (auto simp add: plain_id_def)
  have det: "rmatch [Star (NoneOf '']''), Mark, Lit (CHR '']'')] s
      = rmatch [Mark, Lit (CHR '']'')] (dropWhile (cls_mem (NoneOf '']'')) s)" for s
    by (rule rmatch_Star_det) simp
  have dw: "dropWhile (cls_mem (NoneOf '']'')) (xs @ CHR '']'' # rest) = CHR '']'' # rest"
    using xs by (induction xs) auto
  show ?thesis
    unfolding folder_rx_def rmatch_lits rx_plus_def
    using x by (simp add: t det dw lits_def)
qed

lemma parse_section_body:
  assumes "plain_block (m, d, tid)"
  shows "parse_section (block_body m d tid @ t) = Some (block_track (m, d, tid))"
proof -
  from assms have m: "m \<in> set '' ~x''" and d: "plain_description d" and i: "plain_id tid"
    by (auto simp add: plain_block_def)
  define tail where "tail = ''(conductor/tracks/'' @ tid @ '')'' @ [CHR 0x0A, CHR 0x0A] @ t"
  define link where "link = ''[conductor/tracks/'' @ tid @ CHR '']'' # tail"
  define after where "after = CHR 0x0A # ''**Folder:** '' @ link"
  define head where "head = ''## ['' @ [m] @ ''] Track: '' @ d @ CHR 0x0A # after"
  have b: "block_body m d tid @ t = CHR 0x0A # CHR 0x0A # head"
    by (simp add: block_body_def head_def after_def link_def tail_def)
  define hms where "hms = [m # '']'' @ '' Track: '' @ d @ CHR 0x0A # after,
      '']'' @ '' Track: '' @ d @ CHR 0x0A # after, d @ CHR 0x0A # after, CHR 0x0A # after]"
  have hm: "rmatch heading_rx head = Some (hms, CHR 0x0A # after)"
    unfolding head_def hms_def by (rule heading_match_body [OF m d])
  have h0: "rmatch heading_rx (CHR 0x0A # s) = None" for s
    by (simp add: heading_rx_def lits_def)
  have h1: "rsearch heading_rx head = Some ([], hms, CHR 0x0A # after)"
    by (rule rsearch_hit [OF hm])
  have h2: "rsearch heading_rx (CHR 0x0A # head) = Some ([CHR 0x0A], hms, CHR 0x0A # after)"
    by (rule rsearch_skip_Some [OF h0 h1])
  have hs: "rsearch heading_rx (block_body m d tid @ t)
      = Some ([CHR 0x0A, CHR 0x0A], hms, CHR 0x0A # after)"
    unfolding b by (rule rsearch_skip_Some [OF h0 h2])
  define u where "u = [CHR 0x0A, CHR 0x0A] @ ''## ['' @ [m] @ ''] Track: '' @ d
      @ [CHR 0x0A, CHR 0x0A] @ ''**Folder:** ''"
  have b2: "block_body m d tid @ t = u @ link"
    by (simp add: block_body_def u_def link_def tail_def)
  have ns: "no_start ''[conductor/tracks/'' u link"
    unfolding u_def link_def using m d
    by (simp add: no_start_append no_start_Cons no_start_Nil no_start_clean plain_description_def)
  define q where "q = Mark # rx_plus (NoneOf '']'') @ [Mark] @ lits '']''"
  have fx: "folder_rx = lits ''[conductor/tracks/'' @ q"
    by (simp add: folder_rx_def q_def)
  define fms where "fms = [tid @ CHR '']'' # tail, CHR '']'' # tail]"
  have fm: "rsearch folder_rx link = Some ([], fms, tail)"
    unfolding link_def fms_def by (rule rsearch_hit) (rule folder_match [OF i])
  have fs: "rsearch folder_rx (block_body m d tid @ t) = Some (u, fms, tail)"
    unfolding b2 fx rsearch_no_start [OF ns] fm [unfolded fx] by simp
  have g1: "rx_group 1 hms = [m]"
    by (simp add: hms_def rx_group_def between_def)
  have g2: "rx_group 2 hms = d"
    by (simp add: hms_def rx_group_def between_def numeral_2_eq_2)
  have g3: "rx_group 1 fms = tid"
    by (simp add: fms_def rx_group_def between_def)
  have ne: "tid \<noteq> []" using i by (simp add: plain_id_def)
  show ?thesis
    unfolding parse_section_def hs fs
    by (simp add: g1 g2 g3 strip_plain [OF d] ne block_track_def Let_def del: One_nat_def)
qed


lemma split_blocks:
  "list_all plain_block bs \<Longrightarrow>
   split_acc ''---'' cur (concat (map block_text bs)) = sections_of cur bs"
proof (induction bs arbitrary: cur)
  case Nil
  then show ?case by (simp add: split_acc_Nil)
next
  case (Cons b bs)
  obtain m d tid where b: "b = (m, d, tid)" by (cases b) auto
  let ?rest = "concat (map block_text bs)"
  have pb: "plain_block (m, d, tid)" using Cons.prems b by simp
  have 1: "split_acc ''---'' cur (CHR 0x0A # (''---'' @ (block_body m d tid @ ?rest)))
      = split_acc ''---'' (cur @ [CHR 0x0A]) (''---'' @ (block_body m d tid @ ?rest))"
    by (rule split_acc_skip) simp
  have 2: "split_acc ''---'' (cur @ [CHR 0x0A]) (''---'' @ (block_body m d tid @ ?rest))
      = (cur @ [CHR 0x0A]) # split_acc ''---'' [] (block_body m d tid @ ?rest)"
    by (rule split_acc_hit) simp
  have 3: "split_acc ''---'' [] (block_body m d tid @ ?rest)
      = split_acc ''---'' ([] @ block_body m d tid) ?rest"
    by (rule split_acc_no_start) (rule block_body_no_sep [OF pb])
  have 4: "split_acc ''---'' (block_body m d tid) ?rest = sections_of (block_body m d tid) bs"
    using Cons by simp
  have e: "concat (map block_text (b # bs))
      = CHR 0x0A # (''---'' @ (block_body m d tid @ ?rest))"
    by (simp add: b block_text_def)
  show ?case
    unfolding e 1 2 3 using 4 by (simp add: b)
qed

lemma blocks_start:
  "concat (map block_text bs) = [] \<or> hd (concat (map block_text bs)) = CHR 0x0A"
  by (cases bs) (auto simp add: block_text_def)

lemma split_registry_doc:
  assumes "\<not> sublist ''---'' h" and "list_all plain_block bs"
  shows "py_split ''---'' (registry_doc h bs) = sections_of h bs"
proof -
  have "no_start ''---'' h (concat (map block_text bs))"
    using blocks_start [of bs] by (intro no_start_clean [OF assms(1)]) auto
  then have "split_acc ''---'' [] (h @ concat (map block_text bs))
      = split_acc ''---'' ([] @ h) (concat (map block_text bs))"
    by (rule split_acc_no_start)
  then show ?thesis
    by (simp add: py_split_def registry_doc_def split_blocks [OF assms(2)])
qed

lemma parse_sections_of:
  "plain_block (m, d, tid) \<Longrightarrow> list_all plain_block bs \<Longrightarrow>
   parse_sections (sections_of (block_body m d tid) bs) = map block_track ((m, d, tid) # bs)"
proof (induction bs arbitrary: m d tid)
  case Nil
  have "parse_section (block_body m d tid @ []) = Some (block_track (m, d, tid))"
    by (rule parse_section_body [OF Nil(1)])
  then show ?case by simp
next
  case (Cons b bs)
  obtain m' d' tid' where b: "b = (m', d', tid')" by (cases b) auto
  have "parse_section (block_body m d tid @ [CHR 0x0A]) = Some (block_track (m, d, tid))"
    by (rule parse_section_body [OF Cons.prems(1)])
  moreover have "parse_sections (sections_of (block_body m' d' tid') bs)
      = map block_track ((m', d', tid') # bs)"
    using Cons.IH Cons.prems(2) b by simp
  ultimately show ?case by (simp add: b)
qed

lemma parse_registry_doc:
  assumes "\<not> sublist ''---'' h" and "list_all plain_block bs"
  shows "parse_text (registry_doc h bs) = map block_track bs"
proof (cases bs)
  case Nil
  then show ?thesis
    using split_registry_doc [OF assms] by (simp add: parse_text_def)
next
  case (Cons b bs')
  obtain m d tid where b: "b = (m, d, tid)" by (cases b) auto
  have "parse_sections (sections_of (block_body m d tid) bs') = map block_track ((m, d, tid) # bs')"
    using parse_sections_of assms(2) Cons b by simp
  then show ?thesis
    using split_registry_doc [OF assms] by (simp add: parse_text_def Cons b)
qed

section \<open>Reading files\<close>

text \<open>A text without a carriage return is read as it is stored; the written
  documents with plain blocks and such a header are of this kind.\<close>

lemma read_text_id: "CHR 0x0D \<notin> set s \<Longrightarrow> read_text s = s"
  by (induction s rule: read_text.induct) auto

lemma read_text_no_cr: "CHR 0x0D \<notin> set (read_text s)"
  by (induction s rule: read_text.induct) auto

lemma block_text_cr_free:
  assumes "m \<noteq> CHR 0x0D" and "CHR 0x0D \<notin> set d" and "CHR 0x0D \<notin> set track_id"
  shows "CHR 0x0D \<notin> set (block_text (m, d, track_id))"
  using assms by (simp add: block_text_def block_body_def)

lemma plain_block_cr_free:
  assumes "plain_block b"
  shows "CHR 0x0D \<notin> set (block_text b)"
proof -
  obtain m d track_id where b: "b = (m, d, track_id)" by (cases b) auto
  have "m \<noteq> CHR 0x0D" and "CHR 0x0D \<notin> set d" and "CHR 0x0D \<notin> set track_id"
    using assms by (auto simp add: b plain_block_def plain_description_def plain_id_def)
  then show ?thesis
    unfolding b by (rule block_text_cr_free)
qed

lemma registry_doc_cr_free:
  assumes "CHR 0x0D \<notin> set h" and "list_all plain_block bs"
  shows "CHR 0x0D \<notin> set (registry_doc h bs)"
  using assms plain_block_cr_free by (auto simp add: registry_doc_def list_all_iff)

lemma registry_doc_snoc: "registry_doc h (bs @ [b]) = registry_doc h bs @ block_text b"
  by (simp add: registry_doc_def)

lemma registry_header_cr_free:
  "CHR 0x0D \<notin> set registry_header" "CHR 0x0D \<notin> set (registry_header @ [CHR 0x0A])"
  by code_simp+

section \<open>Creating tracks and reading them back\<close>

lemma not_sublist_missing_char: "c \<in> set l \<Longrightarrow> c \<notin> set s \<Longrightarrow> \<not> sublist l s"
  using set_mono_sublist by fastforce

lemma digits_no_punct:
  assumes "list_all is_digit ds"
  shows "CHR ''-'' \<notin> set ds" and "CHR ''#'' \<notin> set ds" and "CHR '']'' \<notin> set ds"
    and "CHR 0x0D \<notin> set ds"
  using assms by (auto simp add: list_all_iff is_digit_def)

lemma plain_id_track_name: "plain_id (track_name n)"
proof -
  let ?ds = "format_03d n"
  have dg: "list_all is_digit ?ds" and ne: "?ds \<noteq> []"
    using format_03d_digits by auto
  note np = digits_no_punct [OF dg]
  have 1: "\<not> sublist ''---'' ?ds" "\<not> sublist ''##'' ?ds"
    using not_sublist_missing_char [OF _ np(1), of "''---''"]
      not_sublist_missing_char [OF _ np(2), of "''##''"] by simp_all
  have 2: "\<not> prefix ''--'' ?ds"
    using np(1) ne by (cases ?ds) auto
  have 3: "\<not> prefix ''#'' ?ds"
    using np(2) ne by (cases ?ds) auto
  show ?thesis
    unfolding plain_id_def track_name_def
    using 1 2 3 np by (simp add: sublist_Cons_right)
qed

lemma track_name_cr_free: "CHR 0x0D \<notin> set (track_name n)"
  using plain_id_track_name [of n] by (simp add: plain_id_def)

lemma track_number_track_name: "track_number (track_name n) = Some n"
  unfolding track_name_def
  using track_number_plain [of "format_03d n"] format_03d_digits [of n] format_03d_value [of n]
  by simp

lemma track_name_inj: "track_name a = track_name b \<Longrightarrow> a = b"
  using track_number_track_name by (metis option.inject)

lemma track_name_1: "track_name (Suc 0) = ''track-001''"
  by code_simp

lemma put_entry_new: "map_of es name = None \<Longrightarrow> put_entry name e es = es @ [(name, e)]"
  by (induction es) (auto split: if_splits)

lemma next_id_after:
  assumes "tracks_dir st = Some es" and "map fst es = map track_name [1..<Suc k]"
    and "list_all (\<lambda>(name, e). is_dir e) es"
  shows "get_next_track_id st = track_name (Suc k)"
proof -
  have f: "filter (\<lambda>(name, e). is_dir e) es = es"
    using assms(3) by (simp add: list_all_iff filter_id_conv)
  have "List.map_filter track_number (map track_name xs) = xs" for xs
    by (induction xs) (simp_all add: List.map_filter_simps track_number_track_name)
  then have nums: "List.map_filter track_number (map fst es) = [1..<Suc k]"
    unfolding assms(2) .
  show ?thesis
  proof (cases k)
    case 0
    then have "es = []" using assms(2) by simp
    then show ?thesis
      using assms(1) 0 by (simp add: get_next_track_id_def track_name_1)
  next
    case (Suc j)
    then have ne: "map fst es \<noteq> []" using assms(2) by simp
    have "Max (set [1..<Suc k]) = k"
      using Suc by (simp add: Max_eq_iff) auto
    then show ?thesis
      using assms(1) ne Suc
      by (simp add: get_next_track_id_def f nums track_name_def Let_def del: upt_Suc)
  qed
qed

lemma track_entry_block:
  "track_entry track_id d = block_text (CHR '' '', d, track_id)"
  by (simp add: track_entry_def block_text_def block_body_def)

lemma create_track_step:
  assumes dir: "tracks_dir st = Some es" and names: "map fst es = map track_name [1..<Suc k]"
    and dirs: "list_all (\<lambda>(name, e). is_dir e) es"
    and doc: "tracks_file st = Some (registry_doc h bs)
       \<or> (tracks_file st = None \<and> h = registry_header \<and> bs = [])"
    and cr: "CHR 0x0D \<notin> set (registry_doc h bs)"
  shows "\<exists>es'. create_track d spec_content plan_content now st
      = Inr (track_name (Suc k),
          \<lparr>tracks_file = Some (registry_doc h (bs @ [(CHR '' '', d, track_name (Suc k))])),
           tracks_dir = Some es'\<rparr>)
      \<and> map fst es' = map track_name [1..<Suc (Suc k)]
      \<and> list_all (\<lambda>(name, e). is_dir e) es'"
proof -
  have nid: "get_next_track_id st = track_name (Suc k)"
    by (rule next_id_after [OF dir names dirs])
  have "track_name (Suc k) \<notin> set (map fst es)"
    unfolding names using track_name_inj by fastforce
  then have mo: "map_of es (track_name (Suc k)) = None"
    by (simp add: map_of_eq_None_iff)
  define files where "files = empty_files\<lparr>metadata_json :=
      Some \<lparr>m_id = track_name (Suc k), m_description = d, m_created_at = now,
            m_status = ''pending''\<rparr>, spec_md := Some spec_content, plan_md := Some plan_content\<rparr>"
  define es' where "es' = es @ [(track_name (Suc k), Directory files)]"
  have pe: "put_entry (track_name (Suc k)) (Directory files) es = es'"
    unfolding es'_def by (rule put_entry_new [OF mo])
  have reg: "tracks_file (add_track_to_registry (track_name (Suc k)) d (st\<lparr>tracks_dir := Some es'\<rparr>))
      = Some (registry_doc h (bs @ [(CHR '' '', d, track_name (Suc k))]))"
    using doc read_text_id [OF cr]
    by (auto simp add: add_track_to_registry_def registry_doc_snoc track_entry_block
        registry_doc_def)
  have dr: "tracks_dir (add_track_to_registry (track_name (Suc k)) d (st\<lparr>tracks_dir := Some es'\<rparr>))
      = Some es'"
    by (simp add: add_track_to_registry_def split: option.splits)
  have c: "create_track d spec_content plan_content now st
      = Inr (track_name (Suc k),
          add_track_to_registry (track_name (Suc k)) d (st\<lparr>tracks_dir := Some es'\<rparr>))"
    unfolding create_track_def nid Let_def dir
    by (simp add: mo pe [unfolded files_def])
  have eq: "add_track_to_registry (track_name (Suc k)) d (st\<lparr>tracks_dir := Some es'\<rparr>)
      = \<lparr>tracks_file = Some (registry_doc h (bs @ [(CHR '' '', d, track_name (Suc k))])),
         tracks_dir = Some es'\<rparr>"
    using reg dr by (cases "add_track_to_registry (track_name (Suc k)) d (st\<lparr>tracks_dir := Some es'\<rparr>)") simp
  have n': "map fst es' = map track_name [1..<Suc (Suc k)]"
    unfolding es'_def using names by simp
  have d': "list_all (\<lambda>(name, e). is_dir e) es'"
    unfolding es'_def using dirs by (simp add: is_dir_def)
  show ?thesis
    using c eq n' d' by metis
qed


lemma create_tracks_written:
  assumes "tracks_dir st = Some es" and "map fst es = map track_name [1..<Suc k]"
    and "list_all (\<lambda>(name, e). is_dir e) es"
    and "tracks_file st = Some (registry_doc h bs)"
    and "CHR 0x0D \<notin> set (registry_doc h bs)"
    and "list_all (\<lambda>c. CHR 0x0D \<notin> set (fst c)) calls"
  shows "\<exists>es'. create_tracks calls st
      = Inr (map track_name [Suc k..<Suc k + length calls],
          \<lparr>tracks_file = Some (registry_doc h
             (bs @ map (\<lambda>(i, c). (CHR '' '', fst c, track_name i))
                     (zip [Suc k..<Suc k + length calls] calls))),
           tracks_dir = Some es'\<rparr>)"
  using assms
proof (induction calls arbitrary: st es k bs)
  case Nil
  then show ?case by (cases st) simp
next
  case (Cons c calls)
  obtain d spec_content plan_content now where c: "c = (d, spec_content, plan_content, now)"
    by (cases c) auto
  let ?b = "(CHR '' '', d, track_name (Suc k))"
  obtain es1 where
    st1: "create_track d spec_content plan_content now st
      = Inr (track_name (Suc k),
          \<lparr>tracks_file = Some (registry_doc h (bs @ [?b])), tracks_dir = Some es1\<rparr>)"
    and n1: "map fst es1 = map track_name [1..<Suc (Suc k)]"
    and d1: "list_all (\<lambda>(name, e). is_dir e) es1"
    using create_track_step [OF Cons.prems(1,2,3) _ Cons.prems(5),
        of d spec_content plan_content now] Cons.prems(4) by blast
  let ?st1 = "\<lparr>tracks_file = Some (registry_doc h (bs @ [?b])), tracks_dir = Some es1\<rparr>"
  have dc: "CHR 0x0D \<notin> set d"
    using Cons.prems(6) c by simp
  have cr1: "CHR 0x0D \<notin> set (registry_doc h (bs @ [?b]))"
    using Cons.prems(5) block_text_cr_free [OF _ dc track_name_cr_free, of "CHR '' ''" "Suc k"]
    by (simp add: registry_doc_snoc)
  have rest: "list_all (\<lambda>c. CHR 0x0D \<notin> set (fst c)) calls"
    using Cons.prems(6) by simp
  obtain es' where
    ih: "create_tracks calls ?st1
      = Inr (map track_name [Suc (Suc k)..<Suc (Suc k) + length calls],
          \<lparr>tracks_file = Some (registry_doc h
             ((bs @ [?b]) @ map (\<lambda>(i, c). (CHR '' '', fst c, track_name i))
                     (zip [Suc (Suc k)..<Suc (Suc k) + length calls] calls))),
           tracks_dir = Some es'\<rparr>)"
    using Cons.IH [of ?st1 es1 "Suc k" "bs @ [?b]"] n1 d1 cr1 rest by auto
  have u: "[Suc k..<Suc k + length (c # calls)]
      = Suc k # [Suc (Suc k)..<Suc (Suc k) + length calls]"
    by (simp add: upt_conv_Cons del: upt_Suc)
  show ?case
    unfolding u by (rule exI [of _ es']) (simp add: c st1 ih del: upt_Suc)
qed

lemma create_tracks_document:
  assumes "tracks_dir st0 = Some []"
    and "tracks_file st0 = None \<or> tracks_file st0 = Some (registry_header @ [CHR 0x0A])"
    and "list_all (\<lambda>c. CHR 0x0D \<notin> set (fst c)) calls"
  shows "\<exists>h es'. (h = registry_header \<or> h = registry_header @ [CHR 0x0A])
      \<and> create_tracks calls st0
        = Inr (map track_name [1..<Suc (length calls)],
             \<lparr>tracks_file =
                (if calls = [] then tracks_file st0
                 else Some (registry_doc h
                   (map (\<lambda>(i, c). (CHR '' '', fst c, track_name i))
                      (zip [1..<Suc (length calls)] calls)))),
              tracks_dir = Some es'\<rparr>)"
proof (cases "tracks_file st0")
  case (Some content)
  then have f: "tracks_file st0 = Some (registry_doc (registry_header @ [CHR 0x0A]) [])"
    using assms(2) by (simp add: registry_doc_def)
  obtain es' where "create_tracks calls st0
    = Inr (map track_name [Suc 0..<Suc 0 + length calls],
        \<lparr>tracks_file = Some (registry_doc (registry_header @ [CHR 0x0A])
           ([] @ map (\<lambda>(i, c). (CHR '' '', fst c, track_name i))
                   (zip [Suc 0..<Suc 0 + length calls] calls))),
         tracks_dir = Some es'\<rparr>)"
    using create_tracks_written [of st0 "[]" 0 "registry_header @ [CHR 0x0A]" "[]" calls]
      assms(1,3) f registry_header_cr_free(2) by (auto simp add: registry_doc_def)
  then show ?thesis
    using f by (auto simp add: registry_doc_def simp del: upt_Suc)
next
  case None
  show ?thesis
  proof (cases calls)
    case Nil
    then show ?thesis using None assms(1) by (cases st0) auto
  next
    case (Cons c cs)
    obtain d spec_content plan_content now where c: "c = (d, spec_content, plan_content, now)"
      by (cases c) auto
    let ?b = "(CHR '' '', d, track_name (Suc 0))"
    obtain es1 where
      st1: "create_track d spec_content plan_content now st0
        = Inr (track_name (Suc 0),
            \<lparr>tracks_file = Some (registry_doc registry_header [?b]),
             tracks_dir = Some es1\<rparr>)"
      and n1: "map fst es1 = map track_name [1..<Suc (Suc 0)]"
      and d1: "list_all (\<lambda>(name, e). is_dir e) es1"
      using create_track_step [of st0 "[]" 0 registry_header "[]" d spec_content plan_content now]
        assms(1) None registry_header_cr_free(1) by (auto simp add: registry_doc_def)
    let ?st1 = "\<lparr>tracks_file = Some (registry_doc registry_header [?b]),
             tracks_dir = Some es1\<rparr>"
    have dc: "CHR 0x0D \<notin> set d" and rest: "list_all (\<lambda>c. CHR 0x0D \<notin> set (fst c)) cs"
      using assms(3) Cons c by simp_all
    have cr1: "CHR 0x0D \<notin> set (registry_doc registry_header [?b])"
      using registry_header_cr_free(1)
        block_text_cr_free [OF _ dc track_name_cr_free, of "CHR '' ''" "Suc 0"]
      by (simp add: registry_doc_def)
    obtain es' where
      r: "create_tracks cs ?st1
        = Inr (map track_name [Suc (Suc 0)..<Suc (Suc 0) + length cs],
            \<lparr>tracks_file = Some (registry_doc registry_header
               (?b # map (\<lambda>(i, c). (CHR '' '', fst c, track_name i))
                   (zip [Suc (Suc 0)..<Suc (Suc 0) + length cs] cs))),
             tracks_dir = Some es'\<rparr>)"
      using create_tracks_written [of ?st1 es1 "Suc 0" registry_header "[?b]" cs] n1 d1 cr1 rest
      by auto
    have u: "[1..<Suc (length calls)] = Suc 0 # [Suc (Suc 0)..<Suc (Suc 0) + length cs]"
      by (simp add: Cons upt_conv_Cons del: upt_Suc)
    have "create_tracks calls st0
        = Inr (map track_name [1..<Suc (length calls)],
           \<lparr>tracks_file = Some (registry_doc registry_header
               (map (\<lambda>(i, c). (CHR '' '', fst c, track_name i))
                  (zip [1..<Suc (length calls)] calls))),
            tracks_dir = Some es'\<rparr>)"
      unfolding u by (simp add: Cons c st1 r del: upt_Suc)
    then show ?thesis using Cons by auto
  qed
qed

lemma registry_header_clean:
  "\<not> sublist ''---'' registry_header" "\<not> sublist ''---'' (registry_header @ [CHR 0x0A])"
  "\<not> sublist ''##'' registry_header" "\<not> sublist ''##'' (registry_header @ [CHR 0x0A])"
  by code_simp+

text \<open>
  C1.  On a project whose tracks directory exists and is empty and whose registry
  document is absent or holds the header alone, any sequence of calls of
  \<open>create_track\<close> with plain descriptions (not empty, on one line, so without line
  feed and carriage return, no white space at either end, free of \<open>---\<close> and of
  \<open>[conductor/tracks/\<close>) succeeds and returns the ids
  \<open>track-001\<close>, \<open>track-002\<close>, ... in this order; \<open>parse_tracks\<close> then returns one record
  per call, in the order of the calls, with the description of the call, the status
  \<open>pending\<close> and the id returned.
\<close>

theorem create_then_parse:
  assumes "tracks_dir st0 = Some []"
    and "tracks_file st0 = None \<or> tracks_file st0 = Some (registry_header @ [CHR 0x0A])"
    and "list_all (\<lambda>c. plain_description (fst c)) calls"
  shows "\<exists>st. create_tracks calls st0 = Inr (map track_name [1..<Suc (length calls)], st)
      \<and> parse_tracks st
        = map (\<lambda>(i, c). \<lparr>t_id = track_name i, t_description = fst c, t_status = ''pending'',
                         t_folder = ''conductor/tracks/'' @ track_name i\<rparr>)
            (zip [1..<Suc (length calls)] calls)"
proof -
  define new where "new = map (\<lambda>(i, c). (CHR '' '', fst c, track_name i))
      (zip [1..<Suc (length calls)] calls)"
  have pl: "list_all plain_block new"
    using assms(3) unfolding new_def
    by (auto simp add: list_all_iff plain_block_def plain_id_track_name dest: set_zip_rightD)
  have tr: "map block_track new
      = map (\<lambda>(i, c). \<lparr>t_id = track_name i, t_description = fst c, t_status = ''pending'',
                         t_folder = ''conductor/tracks/'' @ track_name i\<rparr>)
            (zip [1..<Suc (length calls)] calls)"
    unfolding new_def by (simp add: block_track_def status_of_char_def split_def)
  have nc: "list_all (\<lambda>c. CHR 0x0D \<notin> set (fst c)) calls"
    using assms(3) by (auto simp add: list_all_iff plain_description_def)
  obtain h es' where h: "h = registry_header \<or> h = registry_header @ [CHR 0x0A]"
    and ct: "create_tracks calls st0
      = Inr (map track_name [1..<Suc (length calls)],
             \<lparr>tracks_file = (if calls = [] then tracks_file st0 else Some (registry_doc h new)),
              tracks_dir = Some es'\<rparr>)"
    using create_tracks_document [OF assms(1,2) nc] unfolding new_def by blast
  have hc: "\<not> sublist ''---'' h"
    using h registry_header_clean by auto
  have hr: "CHR 0x0D \<notin> set h"
    using h registry_header_cr_free by auto
  let ?st = "\<lparr>tracks_file = (if calls = [] then tracks_file st0 else Some (registry_doc h new)),
              tracks_dir = Some es'\<rparr>"
  have "parse_tracks ?st = map block_track new"
  proof (cases "calls = []")
    case True
    have "parse_text (registry_doc (registry_header @ [CHR 0x0A]) []) = map block_track []"
      by (rule parse_registry_doc [OF registry_header_clean(2)]) simp
    then show ?thesis
      using True assms(2) read_text_id [OF registry_header_cr_free(2)]
      by (auto simp add: parse_tracks_def new_def registry_doc_def)
  next
    case False
    then show ?thesis
      by (simp add: parse_tracks_def parse_registry_doc [OF hc pl]
          read_text_id [OF registry_doc_cr_free [OF hr pl]])
  qed
  then show ?thesis
    using ct tr by auto
qed

lemma two_calls_plain: "list_all (\<lambda>c. plain_description (fst c)) two_calls"
  by code_simp

lemma two_calls_ids: "map track_name [1..<Suc (length two_calls)] = [''track-001'', ''track-002'']"
  by code_simp

lemma two_calls_records:
  "map (\<lambda>(i, c). \<lparr>t_id = track_name i, t_description = fst c, t_status = ''pending'',
                   t_folder = ''conductor/tracks/'' @ track_name i\<rparr>)
     (zip [1..<Suc (length two_calls)] two_calls)
   = [\<lparr>t_id = ''track-001'', t_description = ''Login'', t_status = ''pending'',
       t_folder = ''conductor/tracks/track-001''\<rparr>,
      \<lparr>t_id = ''track-002'', t_description = ''Log-out page'', t_status = ''pending'',
       t_folder = ''conductor/tracks/track-002''\<rparr>]"
  by code_simp

theorem create_then_parse_witness:
  "tracks_dir (init_conductor_structure fresh_store) = Some []
   \<and> tracks_file (init_conductor_structure fresh_store) = Some (registry_header @ [CHR 0x0A])
   \<and> list_all (\<lambda>c. plain_description (fst c)) two_calls
   \<and> (\<exists>st. create_tracks two_calls (init_conductor_structure fresh_store)
            = Inr ([''track-001'', ''track-002''], st)
        \<and> parse_tracks st
          = [\<lparr>t_id = ''track-001'', t_description = ''Login'', t_status = ''pending'',
              t_folder = ''conductor/tracks/track-001''\<rparr>,
             \<lparr>t_id = ''track-002'', t_description = ''Log-out page'', t_status = ''pending'',
              t_folder = ''conductor/tracks/track-002''\<rparr>])"
proof -
  have d: "tracks_dir (init_conductor_structure fresh_store) = Some []"
    by (simp add: init_conductor_structure_def fresh_store_def)
  have f: "tracks_file (init_conductor_structure fresh_store)
      = Some (registry_header @ [CHR 0x0A])"
    by (simp add: init_conductor_structure_def fresh_store_def)
  have f': "tracks_file (init_conductor_structure fresh_store) = None
      \<or> tracks_file (init_conductor_structure fresh_store) = Some (registry_header @ [CHR 0x0A])"
    using f by simp
  show ?thesis
    using d f two_calls_plain create_then_parse [OF d f' two_calls_plain]
    unfolding two_calls_ids two_calls_records by blast
qed

text \<open>A description that ends in a blank is read back without it: the parse strips the
  text of the heading.\<close>

theorem create_then_parse_counterexample:
  "create_tracks [(''Login '', ''# spec'', ''# plan'', ''2024-01-01T00:00:00'')]
       (init_conductor_structure fresh_store)
     = Inr ([''track-001''], trailing_space_store)
   \<and> parse_tracks trailing_space_store
     = [\<lparr>t_id = ''track-001'', t_description = ''Login'', t_status = ''pending'',
         t_folder = ''conductor/tracks/track-001''\<rparr>]
   \<and> ''Login'' \<noteq> ''Login ''"
  by code_simp

text \<open>A description with a carriage return inside is written with it and read with
  a line feed in its place, at which the text of the heading ends.\<close>

lemma carriage_return_description:
  "(case create_track (''Login'' @ [CHR 0x0D] @ ''page'') ''# spec'' ''# plan''
          ''2024-01-01T00:00:00'' (init_conductor_structure fresh_store) of
      Inl e \<Rightarrow> []
    | Inr (track_id, st) \<Rightarrow> map t_description (parse_tracks st)) = [''Login'']"
  by code_simp

text \<open>Without the tracks directory the call raises: \<open>mkdir\<close> does not create the
  parents.\<close>

lemma create_track_without_tracks_dir:
  "tracks_dir st = None \<Longrightarrow>
   create_track d spec_content plan_content now st = Inl FileNotFoundError"
  by (simp add: create_track_def Let_def)

section \<open>Status updates on written documents\<close>

lemma parse_template_literal:
  "CHR 0x5C \<notin> set t \<Longrightarrow> parse_template t = Inr (map Text t)"
  by (induction t) (auto simp add: cons_piece_def)

lemma fill_literal: "fill (map Text t) m = t"
  by (induction t) auto

lemma py_sub_literal:
  "CHR 0x5C \<notin> set t \<Longrightarrow> py_sub p t s = Inr (sub_all p (map Text t) s)"
  by (simp add: py_sub_def parse_template_literal)

lemma rmatch_lits_end:
  "rmatch (lits l) s = (if prefix l s then Some ([], drop (length l) s) else None)"
  using rmatch_lits [of l "[]" s] by simp

lemma prefix_before_newline:
  assumes "c \<notin> set l"
  shows "prefix l (d @ c # a) \<longleftrightarrow> prefix l d"
proof
  assume "prefix l (d @ c # a)"
  then have "prefix l d \<or> (\<exists>us. l = d @ us \<and> prefix us (c # a))"
    by (simp add: prefix_append)
  then show "prefix l d"
  proof
    assume "\<exists>us. l = d @ us \<and> prefix us (c # a)"
    then obtain us where us: "l = d @ us" "prefix us (c # a)" by blast
    then have "us = []" using assms by (cases us) auto
    with us show ?thesis by simp
  qed simp
next
  assume "prefix l d"
  then show "prefix l (d @ c # a)" by (simp add: prefix_prefix)
qed

lemma heading_prefix_front:
  assumes "m \<in> set '' ~x''"
  shows "rmatch (old_pattern d0) (''## ['' @ [m] @ ''] Track:'' @ s)
    = rmatch (Star Space # lits d0) s"
  using assms
  by (simp add: old_pattern_def heading_prefix_rx_def re_escape_def lits_def is_space_def
      split: option.splits)

lemma heading_prefix_match:
  assumes m: "m \<in> set '' ~x''" and d0: "literal_description d0" and d: "plain_description d"
  shows "rmatch (old_pattern d0) (''## ['' @ [m] @ ''] Track: '' @ d @ CHR 0x0A # a)
    = (if prefix d0 d then Some ([], drop (length d0) d @ CHR 0x0A # a) else None)"
proof -
  obtain y ys where y: "d0 = y # ys" and ny: "\<not> is_space y" and nl: "CHR 0x0A \<notin> set d0"
    using d0 by (cases d0) (auto simp add: literal_description_def plain_description_def)
  obtain x xs where x: "d = x # xs" and nx: "\<not> is_space x"
    using d by (cases d) (auto simp add: plain_description_def)
  have det: "rmatch (Star Space # lits d0) s = rmatch (lits d0) (dropWhile (cls_mem Space) s)" for s
    by (rule rmatch_Star_det) (simp add: y lits_def, use ny in auto)
  have dw: "dropWhile (cls_mem Space) (CHR '' '' # d @ CHR 0x0A # a) = d @ CHR 0x0A # a"
    using nx by (simp add: x is_space_def)
  have e: "''## ['' @ [m] @ ''] Track: '' @ d @ CHR 0x0A # a
      = ''## ['' @ [m] @ ''] Track:'' @ (CHR '' '' # d @ CHR 0x0A # a)"
    by simp
  have dr: "prefix d0 d \<Longrightarrow> drop (length d0) (d @ CHR 0x0A # a) = drop (length d0) d @ CHR 0x0A # a"
    by (auto simp add: prefix_def)
  show ?thesis
    unfolding e heading_prefix_front [OF m] det dw rmatch_lits_end prefix_before_newline [OF nl]
    using dr by simp
qed


lemma not_sublist_drop: "\<not> sublist l d \<Longrightarrow> \<not> sublist l (drop n d)"
  using sublist_drop sublist_order.order_trans by blast

lemma between_append: "between (u @ v) v = u"
  by (simp add: between_def)

lemma old_pattern_lits:
  "old_pattern d0 = lits ''##'' @ ([Star Space] @ lits ''['' @ [One (OneOf '' ~x'')] @ lits '']''
      @ [Star Space] @ lits ''Track:'' @ [Star Space] @ re_escape d0)"
  by (simp add: old_pattern_def heading_prefix_rx_def)

lemma sub_all_block:
  assumes b: "literal_block (m, d, tid)" and d0: "literal_description d0"
  shows "sub_all (old_pattern d0) (map Text (new_heading c d0)) (block_text (m, d, tid) @ rest)
    = block_text (if prefix d0 d then c else m, d, tid)
      @ sub_all (old_pattern d0) (map Text (new_heading c d0)) rest"
proof -
  from b have m: "m \<in> set '' ~x''" and pd: "plain_description d"
    and hd: "\<not> sublist ''##'' d" and ht: "\<not> sublist ''##'' tid"
    by (auto simp add: literal_block_def literal_description_def plain_id_def)
  define q where "q = [Star Space] @ lits ''['' @ [One (OneOf '' ~x'')] @ lits '']''
      @ [Star Space] @ lits ''Track:'' @ [Star Space] @ re_escape d0"
  define r where "r = map Text (new_heading c d0)"
  have px: "old_pattern d0 = lits ''##'' @ q"
    unfolding q_def by (rule old_pattern_lits)
  define a where "a = CHR 0x0A # ''**Folder:** [conductor/tracks/'' @ tid
      @ ''](conductor/tracks/'' @ tid @ '')'' @ [CHR 0x0A, CHR 0x0A]"
  define pre where "pre = [CHR 0x0A] @ ''---'' @ [CHR 0x0A, CHR 0x0A]"
  define x where "x = ''## ['' @ [m] @ ''] Track: '' @ d @ CHR 0x0A # (a @ rest)"
  have bt: "block_text (m', d, tid) = pre @ new_heading m' d @ CHR 0x0A # a" for m'
    by (simp add: block_text_def block_body_def pre_def a_def new_heading_def)
  have e: "block_text (m, d, tid) @ rest = pre @ x"
    by (simp add: bt x_def new_heading_def)
  have na: "no_start ''##'' a rest"
    unfolding a_def using ht
    by (simp add: no_start_append no_start_Cons no_start_Nil no_start_clean)
  have 1: "sub_all (lits ''##'' @ q) r (pre @ x) = pre @ sub_all (lits ''##'' @ q) r x"
    by (rule sub_all_no_start) (simp add: pre_def no_start_Cons no_start_Nil)
  have hm: "rmatch (lits ''##'' @ q) x
      = (if prefix d0 d then Some ([], drop (length d0) d @ CHR 0x0A # (a @ rest)) else None)"
    unfolding px [symmetric] x_def by (rule heading_prefix_match [OF m d0 pd])
  have 2: "sub_all (lits ''##'' @ q) r x
      = new_heading (if prefix d0 d then c else m) d @ CHR 0x0A # a
        @ sub_all (lits ''##'' @ q) r rest"
  proof (cases "prefix d0 d")
    case True
    define rest1 where "rest1 = drop (length d0) d @ CHR 0x0A # (a @ rest)"
    have h: "rmatch (lits ''##'' @ q) x = Some ([], rest1)"
      using hm True by (simp add: rest1_def)
    have dd: "d0 @ drop (length d0) d = d"
      using True by (auto simp add: prefix_def)
    have xe: "x = new_heading m d0 @ rest1"
      unfolding x_def rest1_def new_heading_def using dd by (metis append_assoc)
    have l: "length rest1 < length x"
      unfolding xe by (simp add: new_heading_def)
    have ns: "no_start ''##'' (drop (length d0) d @ [CHR 0x0A] @ a) rest"
      using na not_sublist_drop [OF hd, of "length d0"]
      by (simp add: no_start_append no_start_Cons no_start_Nil no_start_clean a_def)
    have r1: "rest1 = (drop (length d0) d @ [CHR 0x0A] @ a) @ rest"
      by (simp add: rest1_def)
    have s1: "sub_all (lits ''##'' @ q) r rest1
        = (drop (length d0) d @ [CHR 0x0A] @ a) @ sub_all (lits ''##'' @ q) r rest"
      unfolding r1 by (rule sub_all_no_start [OF ns])
    have fl: "fill r (between x rest1) = new_heading c d0"
      unfolding r_def by (rule fill_literal)
    have nh: "new_heading c d0 @ drop (length d0) d = new_heading c d"
      unfolding new_heading_def using dd by simp
    have "sub_all (lits ''##'' @ q) r x
        = fill r (between x rest1) @ sub_all (lits ''##'' @ q) r rest1"
      by (rule sub_all_hit [OF h l])
    then have "sub_all (lits ''##'' @ q) r x
        = new_heading c d0 @ (drop (length d0) d @ [CHR 0x0A] @ a)
          @ sub_all (lits ''##'' @ q) r rest"
      by (simp only: fl s1)
    then have "sub_all (lits ''##'' @ q) r x
        = (new_heading c d0 @ drop (length d0) d) @ CHR 0x0A # a
          @ sub_all (lits ''##'' @ q) r rest"
      by simp
    then show ?thesis
      unfolding nh using True by simp
  next
    case False
    define x1 where "x1 = ''# ['' @ [m] @ ''] Track: '' @ d @ [CHR 0x0A] @ a"
    have h: "rmatch (lits ''##'' @ q) (CHR ''#'' # (x1 @ rest)) = None"
      using hm False by (simp add: x_def x1_def)
    have ns: "no_start ''##'' x1 rest"
      unfolding x1_def using na hd m
      by (simp add: no_start_append no_start_Cons no_start_Nil no_start_clean a_def)
    have "sub_all (lits ''##'' @ q) r (CHR ''#'' # (x1 @ rest))
        = CHR ''#'' # sub_all (lits ''##'' @ q) r (x1 @ rest)"
      by (rule sub_all_skip [OF h])
    also have "sub_all (lits ''##'' @ q) r (x1 @ rest) = x1 @ sub_all (lits ''##'' @ q) r rest"
      by (rule sub_all_no_start [OF ns])
    finally show ?thesis
      using False by (simp add: x_def x1_def new_heading_def)
  qed
  have "sub_all (lits ''##'' @ q) r (block_text (m, d, tid) @ rest)
      = pre @ (new_heading (if prefix d0 d then c else m) d @ CHR 0x0A # a
        @ sub_all (lits ''##'' @ q) r rest)"
    unfolding e 1 2 ..
  also have "\<dots> = block_text (if prefix d0 d then c else m, d, tid)
        @ sub_all (lits ''##'' @ q) r rest"
    unfolding bt by simp
  finally show ?thesis
    unfolding px r_def .
qed

lemma sub_all_blocks:
  assumes "list_all literal_block bs" and "literal_description d0"
  shows "sub_all (old_pattern d0) (map Text (new_heading c d0)) (concat (map block_text bs))
    = concat (map block_text (mark_blocks c d0 bs))"
  using assms(1)
proof (induction bs)
  case Nil
  have "rmatch (old_pattern d0) [] = None"
    by (simp add: old_pattern_lits lits_def)
  then show ?case by (simp add: sub_all_Nil mark_blocks_def)
next
  case (Cons b bs)
  obtain m d tid where b: "b = (m, d, tid)" by (cases b) auto
  have lb: "literal_block (m, d, tid)" using Cons.prems b by simp
  have ih: "sub_all (old_pattern d0) (map Text (new_heading c d0)) (concat (map block_text bs))
    = concat (map block_text (mark_blocks c d0 bs))"
    using Cons by simp
  have "sub_all (old_pattern d0) (map Text (new_heading c d0))
      (block_text (m, d, tid) @ concat (map block_text bs))
    = block_text (if prefix d0 d then c else m, d, tid) @ concat (map block_text (mark_blocks c d0 bs))"
    unfolding sub_all_block [OF lb assms(2)] ih ..
  then show ?case
    by (simp add: b mark_blocks_def)
qed

lemma sub_all_registry_doc:
  assumes "\<not> sublist ''##'' h" and "list_all literal_block bs" and "literal_description d0"
  shows "sub_all (old_pattern d0) (map Text (new_heading c d0)) (registry_doc h bs)
    = registry_doc h (mark_blocks c d0 bs)"
proof -
  have "no_start ''##'' h (concat (map block_text bs))"
    using blocks_start [of bs] by (intro no_start_clean [OF assms(1)]) auto
  then have "sub_all (lits ''##'' @ q) r (h @ concat (map block_text bs))
      = h @ sub_all (lits ''##'' @ q) r (concat (map block_text bs))" for q r
    by (rule sub_all_no_start)
  then have "sub_all (old_pattern d0) r (h @ concat (map block_text bs))
      = h @ sub_all (old_pattern d0) r (concat (map block_text bs))" for r
    unfolding old_pattern_lits .
  then show ?thesis
    unfolding registry_doc_def by (simp only: sub_all_blocks [OF assms(2,3)])
qed

lemma literal_block_plain: "literal_block b \<Longrightarrow> plain_block b"
  by (auto simp add: literal_block_def plain_block_def literal_description_def)

lemma find_block_track:
  "find (\<lambda>t. t_id t = tid0) (map block_track bs)
   = map_option block_track (find (\<lambda>b. snd (snd b) = tid0) bs)"
  by (induction bs) (auto simp add: block_track_def split: prod.splits)

lemma char_of_status_marker: "char_of_status s \<in> set '' ~x''"
  by (simp add: char_of_status_def)

lemma update_written:
  assumes "tracks_file st = Some (registry_doc h bs)"
    and "\<not> sublist ''---'' h" and "\<not> sublist ''##'' h" and "list_all literal_block bs"
    and "CHR 0x0D \<notin> set h"
  shows "update_track_status tid0 s st
    = (case find (\<lambda>b. snd (snd b) = tid0) bs of
         None \<Rightarrow> Inr st
       | Some b0 \<Rightarrow>
           Inr (st\<lparr>tracks_file :=
                  Some (registry_doc h (mark_blocks (char_of_status s) (fst (snd b0)) bs))\<rparr>))"
proof -
  have pl: "list_all plain_block bs"
    using assms(4) literal_block_plain by (auto simp add: list_all_iff)
  have rd: "read_text (registry_doc h bs) = registry_doc h bs"
    by (rule read_text_id [OF registry_doc_cr_free [OF assms(5) pl]])
  have pt: "parse_tracks st = map block_track bs"
    using assms(1) parse_registry_doc [OF assms(2) pl] by (simp add: parse_tracks_def rd)
  have g: "get_track_by_id st tid0
      = map_option block_track (find (\<lambda>b. snd (snd b) = tid0) bs)"
    by (simp add: get_track_by_id_def pt find_block_track)
  show ?thesis
  proof (cases "find (\<lambda>b. snd (snd b) = tid0) bs")
    case None
    then show ?thesis
      using g assms(1) by (simp add: update_track_status_def)
  next
    case (Some b0)
    obtain m0 d0 t0 where b0: "b0 = (m0, d0, t0)" by (cases b0) auto
    have "b0 \<in> set bs" using Some by (auto simp add: find_Some_iff)
    then have ld: "literal_description d0"
      using assms(4) b0 by (auto simp add: list_all_iff literal_block_def)
    then have nb: "CHR 0x5C \<notin> set d0"
      by (simp add: literal_description_def)
    define c where "c = char_of_status s"
    have cm: "c \<in> set '' ~x''"
      unfolding c_def by (rule char_of_status_marker)
    have nb': "CHR 0x5C \<notin> set (new_heading c d0)"
      unfolding new_heading_def using nb cm by auto
    have sub: "py_sub (old_pattern d0) (new_heading c d0) (registry_doc h bs)
        = Inr (registry_doc h (mark_blocks c d0 bs))"
      unfolding py_sub_literal [OF nb'] sub_all_registry_doc [OF assms(3,4) ld] ..
    have gt: "get_track_by_id st tid0 = Some (block_track (m0, d0, t0))"
      using g Some b0 by simp
    have td: "t_description (block_track (m0, d0, t0)) = d0"
      by (simp add: block_track_def)
    have "update_track_status tid0 s st
        = Inr (st\<lparr>tracks_file := Some (registry_doc h (mark_blocks c d0 bs))\<rparr>)"
      unfolding update_track_status_def Let_def assms(1) gt c_def [symmetric]
      by (simp only: td rd sub option.case sum.case)
    then show ?thesis
      by (simp add: Some b0 c_def)
  qed
qed

lemma literal_block_marked:
  assumes "c \<in> set '' ~x''" and "literal_block (m, d, tid)"
  shows "literal_block (if p then c else m, d, tid)"
proof (cases p)
  case True
  then show ?thesis
    using assms unfolding literal_block_def prod.case by (simp only: if_True)
next
  case False
  then show ?thesis
    using assms(2) by (simp only: if_False)
qed

lemma mark_blocks_literal:
  assumes "c \<in> set '' ~x''" and "list_all literal_block bs"
  shows "list_all literal_block (mark_blocks c d0 bs)"
  using assms(2)
proof (induction bs)
  case Nil
  then show ?case by (simp add: mark_blocks_def)
next
  case (Cons b bs)
  obtain m d tid where b: "b = (m, d, tid)" by (cases b) auto
  have "literal_block (if prefix d0 d then c else m, d, tid)"
    using literal_block_marked [OF assms(1)] Cons.prems b by simp
  then show ?case
    using Cons by (simp add: mark_blocks_def b)
qed

lemma find_mark_blocks:
  "find (\<lambda>b. snd (snd b) = tid0) bs = Some (m0, d0, t0) \<Longrightarrow>
   \<exists>m1. find (\<lambda>b. snd (snd b) = tid0) (mark_blocks c d1 bs) = Some (m1, d0, t0)"
  by (induction bs) (auto simp add: mark_blocks_def split: if_splits)

lemma mark_blocks_twice: "mark_blocks c d0 (mark_blocks c d0 bs) = mark_blocks c d0 bs"
  by (auto simp add: mark_blocks_def)

text \<open>The documents \<open>create_track\<close> writes, from literal descriptions, are written
  documents with literal blocks; \<open>update_written\<close> keeps them so.\<close>

lemma created_documents_literal:
  assumes "tracks_dir st0 = Some []"
    and "tracks_file st0 = None \<or> tracks_file st0 = Some (registry_header @ [CHR 0x0A])"
    and "list_all (\<lambda>c. literal_description (fst c)) calls" and "calls \<noteq> []"
  shows "\<exists>st h bs. create_tracks calls st0 = Inr (map track_name [1..<Suc (length calls)], st)
      \<and> tracks_file st = Some (registry_doc h bs)
      \<and> \<not> sublist ''---'' h \<and> \<not> sublist ''##'' h \<and> list_all literal_block bs
      \<and> CHR 0x0D \<notin> set h"
proof -
  define new where "new = map (\<lambda>(i, c). (CHR '' '', fst c, track_name i))
      (zip [1..<Suc (length calls)] calls)"
  have lb: "list_all literal_block new"
    using assms(3) unfolding new_def
    by (auto simp add: list_all_iff literal_block_def plain_id_track_name dest: set_zip_rightD)
  have nc: "list_all (\<lambda>c. CHR 0x0D \<notin> set (fst c)) calls"
    using assms(3) by (auto simp add: list_all_iff literal_description_def plain_description_def)
  obtain h es' where h: "h = registry_header \<or> h = registry_header @ [CHR 0x0A]"
    and ct: "create_tracks calls st0
      = Inr (map track_name [1..<Suc (length calls)],
             \<lparr>tracks_file = Some (registry_doc h new), tracks_dir = Some es'\<rparr>)"
    using create_tracks_document [OF assms(1,2) nc] assms(4) unfolding new_def by auto
  have "\<not> sublist ''---'' h" and "\<not> sublist ''##'' h" and "CHR 0x0D \<notin> set h"
    using h registry_header_clean registry_header_cr_free by auto
  then show ?thesis
    using ct lb by auto
qed

section \<open>Every matching heading is updated\<close>

text \<open>
  C3.  On a written document with literal descriptions and a header without carriage
  return (so that the document is read as it is stored), \<open>update_track_status\<close> looks
  up the description \<open>d0\<close> of the first block with the given id and writes the marker
  of the status into every block whose description begins with \<open>d0\<close>, so into every
  block with the same description, not the first one alone; the other markers, all
  descriptions and all ids stay as they are.
\<close>

theorem set_status_marks_every_match:
  assumes "tracks_file st = Some (registry_doc h bs)"
    and "\<not> sublist ''---'' h" and "\<not> sublist ''##'' h" and "list_all literal_block bs"
    and "CHR 0x0D \<notin> set h"
    and "find (\<lambda>b. snd (snd b) = tid0) bs = Some (m0, d0, t0)"
  shows "update_track_status tid0 s st
      = Inr (st\<lparr>tracks_file :=
               Some (registry_doc h (mark_blocks (char_of_status s) d0 bs))\<rparr>)
    \<and> map fst (mark_blocks (char_of_status s) d0 bs)
      = map (\<lambda>(m, d, tid). if prefix d0 d then char_of_status s else m) bs
    \<and> map snd (mark_blocks (char_of_status s) d0 bs) = map snd bs"
proof -
  have "update_track_status tid0 s st
      = Inr (st\<lparr>tracks_file :=
               Some (registry_doc h (mark_blocks (char_of_status s) d0 bs))\<rparr>)"
    using update_written [OF assms(1,2,3,4,5), of tid0 s] assms(6) by simp
  moreover have "map fst (mark_blocks c d0 bs)
      = map (\<lambda>(m, d, tid). if prefix d0 d then c else m) bs" for c
    by (induction bs) (auto simp add: mark_blocks_def)
  moreover have "map snd (mark_blocks c d0 bs) = map snd bs" for c
    by (induction bs) (auto simp add: mark_blocks_def)
  ultimately show ?thesis by blast
qed

lemma login_blocks_literal: "list_all literal_block login_blocks"
  by code_simp

lemma login_header_clean:
  "\<not> sublist ''---'' (registry_header @ [CHR 0x0A])"
  "\<not> sublist ''##'' (registry_header @ [CHR 0x0A])"
  by code_simp+

lemma login_header_cr_free: "CHR 0x0D \<notin> set (registry_header @ [CHR 0x0A])"
  by code_simp

lemma login_blocks_find:
  "find (\<lambda>b. snd (snd b) = ''track-001'') login_blocks = Some (CHR '' '', ''Login'', ''track-001'')"
  by code_simp

lemma login_blocks_marked:
  "mark_blocks (char_of_status ''completed'') ''Login'' login_blocks
   = [(CHR ''x'', ''Login'', ''track-001''), (CHR '' '', ''Logout'', ''track-002''),
      (CHR ''x'', ''Login'', ''track-003''), (CHR ''x'', ''Login page'', ''track-004'')]"
  by code_simp

theorem set_status_marks_every_match_witness:
  "tracks_file login_store = Some (registry_doc (registry_header @ [CHR 0x0A]) login_blocks)
   \<and> \<not> sublist ''---'' (registry_header @ [CHR 0x0A])
   \<and> \<not> sublist ''##'' (registry_header @ [CHR 0x0A])
   \<and> list_all literal_block login_blocks
   \<and> CHR 0x0D \<notin> set (registry_header @ [CHR 0x0A])
   \<and> find (\<lambda>b. snd (snd b) = ''track-001'') login_blocks
       = Some (CHR '' '', ''Login'', ''track-001'')
   \<and> update_track_status ''track-001'' ''completed'' login_store
       = Inr (login_store\<lparr>tracks_file := Some (registry_doc (registry_header @ [CHR 0x0A])
           [(CHR ''x'', ''Login'', ''track-001''), (CHR '' '', ''Logout'', ''track-002''),
            (CHR ''x'', ''Login'', ''track-003''), (CHR ''x'', ''Login page'', ''track-004'')])\<rparr>)"
proof -
  have f: "tracks_file login_store
      = Some (registry_doc (registry_header @ [CHR 0x0A]) login_blocks)"
    by (simp add: login_store_def)
  have "update_track_status ''track-001'' ''completed'' login_store
      = Inr (login_store\<lparr>tracks_file := Some (registry_doc (registry_header @ [CHR 0x0A])
          (mark_blocks (char_of_status ''completed'') ''Login'' login_blocks))\<rparr>)"
    using set_status_marks_every_match [OF f login_header_clean login_blocks_literal
        login_header_cr_free login_blocks_find, of "''completed''"]
    by (rule conjunct1)
  then show ?thesis
    unfolding login_blocks_marked
    using f login_header_clean login_blocks_literal login_header_cr_free login_blocks_find
    by blast
qed

text \<open>Two blocks with the same description: the update of the first track rewrites
  the heading of the second one as well.\<close>

theorem first_match_only_counterexample:
  "tracks_file twin_store
     = Some (registry_header @ [CHR 0x0A] @ block_text (CHR '' '', ''Login'', ''track-001'')
         @ block_text (CHR '' '', ''Login'', ''track-002''))
   \<and> update_track_status ''track-001'' ''completed'' twin_store
     = Inr (twin_store\<lparr>tracks_file :=
         Some (registry_header @ [CHR 0x0A] @ block_text (CHR ''x'', ''Login'', ''track-001'')
           @ block_text (CHR ''x'', ''Login'', ''track-002''))\<rparr>)
   \<and> block_text (CHR ''x'', ''Login'', ''track-002'') \<noteq> block_text (CHR '' '', ''Login'', ''track-002'')"
  by code_simp

text \<open>On the document of a track created with a carriage return in its description,
  the update looks up the description as it is read, up to the line feed, and writes
  the document back as it was read, the carriage return gone.\<close>

lemma carriage_return_update:
  "(case create_track (''Login'' @ [CHR 0x0D] @ ''page'') ''# spec'' ''# plan''
          ''2024-01-01T00:00:00'' (init_conductor_structure fresh_store) of
      Inl e \<Rightarrow> None
    | Inr (track_id, st) \<Rightarrow>
        (case update_track_status track_id ''completed'' st of
           Inl e \<Rightarrow> None
         | Inr st1 \<Rightarrow> tracks_file st1))
   = Some (registry_header @ [CHR 0x0A, CHR 0x0A] @ ''---'' @ [CHR 0x0A, CHR 0x0A]
       @ ''## [x] Track: Login'' @ [CHR 0x0A] @ ''page'' @ [CHR 0x0A, CHR 0x0A]
       @ ''**Folder:** [conductor/tracks/track-001](conductor/tracks/track-001)''
       @ [CHR 0x0A, CHR 0x0A])"
  by code_simp

text \<open>A plan stored with the line ends of another system is written back with line
  feeds by \<open>update_task_status\<close>.\<close>

lemma carriage_return_plan:
  "map_option (\<lambda>st. plan_file st ''track-001'')
     (case update_task_status ''track-001'' ''A'' ''completed''
        \<lparr>tracks_file = None,
         tracks_dir = Some [(''track-001'', Directory \<lparr>metadata_json = None, spec_md = None,
            plan_md = Some (''- [ ] Task: A'' @ [CHR 0x0D, CHR 0x0A] @ ''- [ ] Task: B''
              @ [CHR 0x0D])\<rparr>)]\<rparr> of
        Inl e \<Rightarrow> None | Inr st \<Rightarrow> Some st)
   = Some (Some (''- [x] Task: A'' @ [CHR 0x0A] @ ''- [ ] Task: B'' @ [CHR 0x0A]))"
  by code_simp

section \<open>Updating twice\<close>

text \<open>
  C2.  On a written document with literal descriptions and a header without carriage
  return (so that the document is read as it is stored), and for any status, two calls
  of \<open>update_track_status\<close> in succession with the same id and status both succeed,
  and the second leaves the store, and with it the document, exactly as the first
  left it.
\<close>

theorem set_status_twice:
  assumes "tracks_file st = Some (registry_doc h bs)"
    and "\<not> sublist ''---'' h" and "\<not> sublist ''##'' h" and "list_all literal_block bs"
    and "CHR 0x0D \<notin> set h"
  shows "\<exists>st1. update_track_status tid0 s st = Inr st1
      \<and> update_track_status tid0 s st1 = Inr st1"
proof (cases "find (\<lambda>b. snd (snd b) = tid0) bs")
  case None
  then have "update_track_status tid0 s st = Inr st"
    using update_written [OF assms] by simp
  then show ?thesis by simp
next
  case (Some b0)
  obtain m0 d0 t0 where b0: "b0 = (m0, d0, t0)" by (cases b0) auto
  define c where "c = char_of_status s"
  define st1 where "st1 = st\<lparr>tracks_file := Some (registry_doc h (mark_blocks c d0 bs))\<rparr>"
  have u1: "update_track_status tid0 s st = Inr st1"
    using update_written [OF assms, of tid0 s] Some
    by (simp add: b0 st1_def c_def)
  have cm: "c \<in> set '' ~x''"
    unfolding c_def by (rule char_of_status_marker)
  have f1: "tracks_file st1 = Some (registry_doc h (mark_blocks c d0 bs))"
    by (simp add: st1_def)
  have lb: "list_all literal_block (mark_blocks c d0 bs)"
    by (rule mark_blocks_literal [OF cm assms(4)])
  obtain m1 where fd: "find (\<lambda>b. snd (snd b) = tid0) (mark_blocks c d0 bs) = Some (m1, d0, t0)"
    using find_mark_blocks Some b0 by blast
  have "update_track_status tid0 s st1
      = Inr (st1\<lparr>tracks_file := Some (registry_doc h (mark_blocks c d0 (mark_blocks c d0 bs)))\<rparr>)"
    using update_written [OF f1 assms(2,3) lb assms(5), of tid0 s] fd
    by (simp add: c_def)
  then have "update_track_status tid0 s st1 = Inr st1"
    unfolding mark_blocks_twice by (simp add: st1_def)
  with u1 show ?thesis by blast
qed

theorem set_status_twice_witness:
  "tracks_file login_store = Some (registry_doc (registry_header @ [CHR 0x0A]) login_blocks)
   \<and> \<not> sublist ''---'' (registry_header @ [CHR 0x0A])
   \<and> \<not> sublist ''##'' (registry_header @ [CHR 0x0A])
   \<and> list_all literal_block login_blocks
   \<and> CHR 0x0D \<notin> set (registry_header @ [CHR 0x0A])
   \<and> (\<exists>st1. update_track_status ''track-003'' ''in_progress'' login_store = Inr st1
          \<and> update_track_status ''track-003'' ''in_progress'' st1 = Inr st1)"
proof -
  have f: "tracks_file login_store
      = Some (registry_doc (registry_header @ [CHR 0x0A]) login_blocks)"
    by (simp add: login_store_def)
  show ?thesis
    using f login_header_clean login_blocks_literal login_header_cr_free
      set_status_twice [OF f login_header_clean login_blocks_literal login_header_cr_free,
        of "''track-003''" "''in_progress''"]
    by blast
qed

text \<open>A description that contains the text of a heading: the first call rewrites a
  later line into a new match of the pattern, which the second call rewrites again.\<close>

theorem set_status_twice_counterexample:
  "parse_tracks nested_store
     = [\<lparr>t_id = ''k'', t_description = ''a## [x'', t_status = ''pending'',
         t_folder = ''conductor/tracks/k''\<rparr>]
   \<and> update_track_status ''k'' ''completed'' nested_store = Inr nested_store_1
   \<and> update_track_status ''k'' ''completed'' nested_store_1 = Inr nested_store_2
   \<and> tracks_file nested_store_1 \<noteq> tracks_file nested_store_2"
  by code_simp

end
